theory Spec2Isabelle
  imports Complex_Main
begin

section \<open>Material baking (exporting/bakematerials.py)\<close>

text \<open>
  The module drives the host application through its scripting interface. The host state
  that the functions read and write is modelled by records that are passed in and returned;
  every exception of the source is a value \<open>Inl e\<close>. Data blocks of the host carry
  a name that is unique within their registry, which is how the source addresses them
  (\<^verbatim>\<open>bpy.data.materials[name]\<close>). Console output (\<^verbatim>\<open>print\<close>) is not part of the
  model; \<^verbatim>\<open>c.kklog\<close> appends to a log.
\<close>

datatype error =
    KeyError string
  | IndexError
  | AttributeError
  | NameError
  | TypeError

text \<open>A \<^verbatim>\<open>for\<close> loop whose body may raise: the first exception ends the loop.\<close>

fun for_each :: "('a \<Rightarrow> 's \<Rightarrow> error + 's) \<Rightarrow> 'a list \<Rightarrow> 's \<Rightarrow> error + 's" where
  "for_each body [] s = Inr s"
| "for_each body (x # xs) s =
     (case body x s of Inl e \<Rightarrow> Inl e | Inr s' \<Rightarrow> for_each body xs s')"

subsection \<open>Data model\<close>

type_synonym mat_id = nat

text \<open>An output socket of a node: the node's name and the index of the output.\<close>

type_synonym socket = "string \<times> nat"

record image =
  img_name :: string
  img_size :: "nat \<times> nat"

text \<open>A node of the node tree inside a material's \<^verbatim>\<open>textures\<close> group.\<close>

record node =
  node_name :: string
  node_type :: string
  node_image :: "image option"
  node_inputs :: "real list"

record textures_group =
  group_nodes :: "node list"
  n_outputs :: nat

text \<open>
  A material. \<open>bake\<close> and \<open>simple\<close> are the truth values of
  \<^verbatim>\<open>material.get('bake')\<close> and \<^verbatim>\<open>material.get('simple')\<close>; \<open>textures\<close> is
  \<^verbatim>\<open>node_tree.nodes.get('textures')\<close>; \<open>out_input\<close> is \<open>None\<close> when the tree has
  no node \<^verbatim>\<open>out\<close>, and otherwise holds the link into \<^verbatim>\<open>nodes['out'].inputs[0]\<close>, if
  any; \<open>combine_node\<close> tells whether the tree has a node \<^verbatim>\<open>combine\<close>. The other
  fields are the settings of the host of the same name.
\<close>

record material =
  mat_name :: string
  bake :: bool
  simple :: bool
  textures :: "textures_group option"
  out_input :: "socket option option"
  combine_node :: bool
  use_fake_user :: bool
  blend_method :: string
  show_transparent_back :: bool
  surface_render_method :: string
  use_transparency_overlap :: bool

text \<open>The node group \<^verbatim>\<open>.Combine colors\<close>: the link into \<^verbatim>\<open>nodes['mix'].inputs[0]\<close>
  and that input's default value.\<close>

record combine_group =
  mix_link :: "socket option"
  mix_default :: real

text \<open>The render settings of the scene. The resolution properties of the host are ints.\<close>

record render_settings =
  resolution_x :: int
  resolution_y :: int
  filepath :: string
  file_format :: string
  color_mode :: string

text \<open>What one call of \<^verbatim>\<open>bpy.ops.render.render(write_still = True)\<close> sees: the render
  settings, the material slots of the object and of the filler plane, the state of the
  \<^verbatim>\<open>.Combine colors\<close> group and the material data.\<close>

record render_shot =
  shot_settings :: render_settings
  shot_slots :: "mat_id option list"
  shot_filler :: "mat_id option list"
  shot_combine :: "combine_group option"
  shot_materials :: "material list"

text \<open>
  The part of the host state that \<^verbatim>\<open>bake_pass\<close> touches. \<open>materials\<close> is
  \<^verbatim>\<open>bpy.data.materials\<close> (a material is identified by its position), \<open>slots\<close>
  the material of each slot of the active object (the slots are linked to the object data,
  so \<^verbatim>\<open>object.data.materials\<close> is the same sequence), \<open>fillerplane\<close> the slots of the
  object \<^verbatim>\<open>fillerplane\<close> when it exists, \<open>bake_mult\<close> the configured resolution
  multiplier and \<open>char_name\<close> the value of \<^verbatim>\<open>c.get_name()\<close>. The multiplier is a
  number of the script, an int or a float: the property is declared outside this module.
\<close>

datatype number = IntVal int | FloatVal real

record bake_scene =
  materials :: "material list"
  slots :: "mat_id option list"
  fillerplane :: "mat_id option list option"
  combine :: "combine_group option"
  render :: render_settings
  bake_mult :: number
  char_name :: string
  log :: "string list"
  shots :: "render_shot list"

subsection \<open>Helpers of the host interface\<close>

text \<open>\<^verbatim>\<open>bpy.data.materials.get(name)\<close>: the position of the material of that name.\<close>

fun materials_get :: "material list \<Rightarrow> string \<Rightarrow> mat_id option" where
  "materials_get [] n = None"
| "materials_get (m # ms) n =
     (if mat_name m = n then Some 0 else map_option Suc (materials_get ms n))"

text \<open>\<^verbatim>\<open>matslot.name\<close>: the name of the slot's material, empty for an empty slot.\<close>

definition slot_name :: "material list \<Rightarrow> mat_id option \<Rightarrow> string" where
  "slot_name ms sl = (case sl of None \<Rightarrow> [] | Some i \<Rightarrow> mat_name (ms ! i))"

text \<open>\<^verbatim>\<open>nodes.get(name)\<close> inside a node tree: the position of the node of that name.\<close>

fun nodes_get :: "node list \<Rightarrow> string \<Rightarrow> nat option" where
  "nodes_get [] n = None"
| "nodes_get (x # xs) n =
     (if node_name x = n then Some 0 else map_option Suc (nodes_get xs n))"

definition kklog :: "string \<Rightarrow> bake_scene \<Rightarrow> bake_scene" where
  "kklog msg s = s\<lparr>log := log s @ [msg]\<rparr>"

subsection \<open>sanitizeMaterialName\<close>

definition illegal_chars :: "char list" where
  "illegal_chars = [CHR 0x5C, CHR 0x60, CHR ''*'', CHR ''<'', CHR ''>'', CHR ''.'', CHR '':'',
     CHR ''?'', CHR ''|'', CHR ''/'', CHR 0x22]"

definition sanitizeMaterialName :: "string \<Rightarrow> string" where
  "sanitizeMaterialName text =
     fold (\<lambda>ch t. if ch \<in> set t then filter (\<lambda>c. c \<noteq> ch) t else t) illegal_chars text"

subsection \<open>bake\_pass\<close>

text \<open>Lines 161-172: switch the normals of the \<^verbatim>\<open>shade\<close> node off for a light or dark
  pass, or route the normal passthrough to the output for a normal pass. The result carries
  the value of the local \<^verbatim>\<open>original_normal_state\<close> when the branch assigned it.\<close>

definition prepare_material ::
  "string \<Rightarrow> mat_id \<Rightarrow> bake_scene \<Rightarrow> error + (real option \<times> bake_scene)" where
  "prepare_material bake_type cur s =
     (let m = materials s ! cur in
      case textures m of
        None \<Rightarrow> Inr (None, s)
      | Some tg \<Rightarrow>
          if bake_type \<noteq> ''normal'' then
            (case nodes_get (group_nodes tg) ''shade'' of
               None \<Rightarrow> Inr (None, s)
             | Some k \<Rightarrow>
                 let toon_shading = group_nodes tg ! k in
                 if length (node_inputs toon_shading) < 2 then Inl IndexError
                 else
                   let original_normal_state = node_inputs toon_shading ! 1;
                       toon' = toon_shading\<lparr>node_inputs := (node_inputs toon_shading)[1 := 0]\<rparr>;
                       m' = m\<lparr>textures := Some (tg\<lparr>group_nodes := (group_nodes tg)[k := toon']\<rparr>)\<rparr>
                   in Inr (Some original_normal_state, s\<lparr>materials := (materials s)[cur := m']\<rparr>))
          else if 0 < n_outputs tg then
            (case out_input m of
               None \<Rightarrow> Inl (KeyError ''out'')
             | Some None \<Rightarrow> Inl IndexError
             | Some (Some l) \<Rightarrow>
                 let m' = m\<lparr>out_input := Some (Some (''textures'', n_outputs tg - 1))\<rparr>
                 in Inr (None, s\<lparr>materials := (materials s)[cur := m']\<rparr>))
          else Inr (None, s))"

text \<open>Lines 176-182: the loop over the nodes of the textures group. \<open>highest_resolution\<close>
  is a Python list, \<^verbatim>\<open>[0, 0]\<close> at the start and the size of an image afterwards.\<close>

fun highest_resolution_loop :: "node list \<Rightarrow> nat list \<Rightarrow> nat list" where
  "highest_resolution_loop [] highest_resolution = highest_resolution"
| "highest_resolution_loop (image_node # rest) highest_resolution =
     (case node_image image_node of
        None \<Rightarrow> highest_resolution_loop rest highest_resolution
      | Some img \<Rightarrow>
          if node_type image_node = ''TEX_IMAGE'' then
            (let image_size = fst (img_size img) * snd (img_size img);
                 largest_so_far = highest_resolution ! 0 * highest_resolution ! 1
             in if image_size > largest_so_far
                then highest_resolution_loop rest [fst (img_size img), snd (img_size img)]
                else highest_resolution_loop rest highest_resolution)
          else highest_resolution_loop rest highest_resolution)"

text \<open>The product \<^verbatim>\<open>highest_resolution[i] * resolution_multiplier\<close> of a dimension of an
  image, which is an int that is not negative, and the multiplier: an int when the
  multiplier is an int, a float when it is a float.\<close>

fun times_number :: "nat \<Rightarrow> number \<Rightarrow> number" where
  "times_number n (IntVal k) = IntVal (int n * k)"
| "times_number n (FloatVal x) = FloatVal (real n * x)"

text \<open>The assignment to \<^verbatim>\<open>render.resolution_x\<close> or \<^verbatim>\<open>render.resolution_y\<close>, an int
  property of the host with the range 4 to 65536: a float is refused with a
  \<^verbatim>\<open>TypeError\<close>, an int is clamped to the range. The result is the value the property
  holds afterwards.\<close>

definition clamp_resolution :: "int \<Rightarrow> int" where
  "clamp_resolution v = max 4 (min 65536 v)"

fun assign_resolution :: "number \<Rightarrow> error + int" where
  "assign_resolution (IntVal v) = Inr (clamp_resolution v)"
| "assign_resolution (FloatVal x) = Inl TypeError"

text \<open>Lines 184-193: the render resolution. The test \<^verbatim>\<open>if highest_resolution:\<close> is the
  truth value of a list, that is, whether it is non-empty.\<close>

definition set_resolution :: "nat list \<Rightarrow> bake_scene \<Rightarrow> error + bake_scene" where
  "set_resolution highest_resolution s =
     (let resolution_multiplier = bake_mult s in
      if highest_resolution \<noteq> [] then
        (case assign_resolution (times_number (highest_resolution ! 0) resolution_multiplier) of
           Inl e \<Rightarrow> Inl e
         | Inr x \<Rightarrow>
             let s1 = s\<lparr>render := (render s)\<lparr>resolution_x := x\<rparr>\<rparr> in
             (case assign_resolution (times_number (highest_resolution ! 1) resolution_multiplier) of
                Inl e \<Rightarrow> Inl e
              | Inr y \<Rightarrow> Inr (s1\<lparr>render := (render s1)\<lparr>resolution_y := y\<rparr>\<rparr>)))
      else
        Inr (s\<lparr>render := (render s)\<lparr>resolution_x := 64, resolution_y := 64\<rparr>\<rparr>))"

text \<open>Lines 196-198: every slot that does not hold the current material gets the
  transparent placeholder material.\<close>

definition hide_slot :: "mat_id \<Rightarrow> nat \<Rightarrow> bake_scene \<Rightarrow> error + bake_scene" where
  "hide_slot cur i s =
     (if slots s ! i \<noteq> Some cur then
        (case materials_get (materials s) (''KK Eyeline kage '' @ char_name s) of
           None \<Rightarrow> Inl (KeyError (''KK Eyeline kage '' @ char_name s))
         | Some p \<Rightarrow> Inr (s\<lparr>slots := (slots s)[i := Some p]\<rparr>))
      else Inr s)"

definition hide_siblings :: "mat_id \<Rightarrow> bake_scene \<Rightarrow> error + bake_scene" where
  "hide_siblings cur s = for_each (hide_slot cur) [0..<length (slots s)] s"

text \<open>Lines 204-206: the file name of the render.\<close>

definition render_filepath :: "string \<Rightarrow> string \<Rightarrow> string \<Rightarrow> string" where
  "render_filepath folderpath name bake_type =
     (let matname = sanitizeMaterialName name;
          matname = (if drop (length matname - 4) matname = ''-ORG''
                     then take (length matname - 4) matname else matname)
      in folderpath @ matname @ '' '' @ bake_type)"

text \<open>\<^verbatim>\<open>bpy.ops.render.render(write_still = True)\<close>: the host renders what it sees.\<close>

definition render_still :: "bake_scene \<Rightarrow> bake_scene" where
  "render_still s =
     s\<lparr>shots := shots s @
        [\<lparr>shot_settings = render s, shot_slots = slots s,
          shot_filler = (case fillerplane s of None \<Rightarrow> [] | Some f \<Rightarrow> f),
          shot_combine = combine s, shot_materials = materials s\<rparr>]\<rparr>"

text \<open>Lines 174-214.\<close>

definition render_material ::
  "string \<Rightarrow> string \<Rightarrow> mat_id \<Rightarrow> bake_scene \<Rightarrow> error + bake_scene" where
  "render_material folderpath bake_type cur s =
     (case textures (materials s ! cur) of
        None \<Rightarrow> Inr s
      | Some tg \<Rightarrow>
          let highest_resolution = highest_resolution_loop (group_nodes tg) [0, 0]
          in case set_resolution highest_resolution s of
               Inl e \<Rightarrow> Inl e
             | Inr s1 \<Rightarrow>
                 (case hide_siblings cur s1 of
                    Inl e \<Rightarrow> Inl e
                  | Inr s2 \<Rightarrow>
                      (case fillerplane s2 of
                         None \<Rightarrow> Inl (KeyError ''fillerplane'')
                       | Some [] \<Rightarrow> Inl IndexError
                       | Some (f # fs) \<Rightarrow>
                           let s3 = s2\<lparr>fillerplane := Some (Some cur # fs)\<rparr>;
                               s4 = s3\<lparr>render := (render s3)\<lparr>
                                      filepath := render_filepath folderpath
                                        (mat_name (materials s3 ! cur)) bake_type,
                                      file_format := ''PNG'', color_mode := ''RGBA''\<rparr>\<rparr>;
                               s5 = render_still s4
                           in Inr (s5\<lparr>render := (render s5)\<lparr>filepath := folderpath\<rparr>\<rparr>))))"

text \<open>Lines 216-226: undo what lines 161-172 did.\<close>

definition restore_material ::
  "string \<Rightarrow> mat_id \<Rightarrow> real option \<Rightarrow> bake_scene \<Rightarrow> error + bake_scene" where
  "restore_material bake_type cur original_normal_state s =
     (let m = materials s ! cur in
      case textures m of
        None \<Rightarrow> Inr s
      | Some tg \<Rightarrow>
          if bake_type \<noteq> ''normal'' then
            (case nodes_get (group_nodes tg) ''shade'' of
               None \<Rightarrow> Inr s
             | Some k \<Rightarrow>
                 let toon_shading = group_nodes tg ! k in
                 if length (node_inputs toon_shading) < 2 then Inl IndexError
                 else
                   (case original_normal_state of
                      None \<Rightarrow> Inl NameError
                    | Some v \<Rightarrow>
                        let toon' = toon_shading\<lparr>node_inputs := (node_inputs toon_shading)[1 := v]\<rparr>;
                            m' = m\<lparr>textures := Some (tg\<lparr>group_nodes := (group_nodes tg)[k := toon']\<rparr>)\<rparr>
                        in Inr (s\<lparr>materials := (materials s)[cur := m']\<rparr>)))
          else if 0 < n_outputs tg then
            (case out_input m of
               None \<Rightarrow> Inl (KeyError ''out'')
             | Some None \<Rightarrow> Inl IndexError
             | Some (Some l) \<Rightarrow>
                 if combine_node m then
                   Inr (s\<lparr>materials := (materials s)[cur := m\<lparr>out_input := Some (Some (''combine'', 0))\<rparr>]\<rparr>)
                 else Inl (KeyError ''combine''))
          else Inr s)"

text \<open>Lines 229-230: put the remembered materials back, by name.\<close>

definition restore_slot :: "string list \<Rightarrow> nat \<Rightarrow> bake_scene \<Rightarrow> error + bake_scene" where
  "restore_slot original_material_order material_index s =
     (if material_index < length (slots s) then
        (case materials_get (materials s) (original_material_order ! material_index) of
           None \<Rightarrow> Inl (KeyError (original_material_order ! material_index))
         | Some j \<Rightarrow> Inr (s\<lparr>slots := (slots s)[material_index := Some j]\<rparr>))
      else Inl IndexError)"

definition restore_slots :: "string list \<Rightarrow> bake_scene \<Rightarrow> error + bake_scene" where
  "restore_slots original_material_order s =
     for_each (restore_slot original_material_order) [0..<length original_material_order] s"

text \<open>Lines 152-230: the body of the loop over the materials of the object, for the
  material at position \<open>index\<close>.\<close>

definition bake_material ::
  "string \<Rightarrow> string \<Rightarrow> string list \<Rightarrow> nat \<Rightarrow> bake_scene \<Rightarrow> error + bake_scene" where
  "bake_material folderpath bake_type original_material_order index s =
     (case slots s ! index of
        None \<Rightarrow> Inl AttributeError
      | Some cur \<Rightarrow>
          if \<not> bake (materials s ! cur) then
            Inr (kklog (''Detected material that cannot be finalized. Skipping: ''
                        @ mat_name (materials s ! cur)) s)
          else
            (case prepare_material bake_type cur s of
               Inl e \<Rightarrow> Inl e
             | Inr (original_normal_state, s1) \<Rightarrow>
                 (case render_material folderpath bake_type cur s1 of
                    Inl e \<Rightarrow> Inl e
                  | Inr s2 \<Rightarrow>
                      (case restore_material bake_type cur original_normal_state s2 of
                         Inl e \<Rightarrow> Inl e
                       | Inr s3 \<Rightarrow> restore_slots original_material_order s3))))"

text \<open>Lines 134-234.\<close>

definition bake_pass :: "string \<Rightarrow> string \<Rightarrow> bake_scene \<Rightarrow> error + bake_scene" where
  "bake_pass folderpath bake_type s =
     (let original_material_order = map (slot_name (materials s)) (slots s) in
      case combine s of
        None \<Rightarrow> Inl (KeyError ''.Combine colors'')
      | Some cmb \<Rightarrow>
          (case mix_link cmb of
             None \<Rightarrow> Inl IndexError
           | Some l \<Rightarrow>
               let s1 = s\<lparr>combine := Some (cmb\<lparr>mix_link := None,
                           mix_default := (if bake_type = ''light'' then 1 else 0)\<rparr>)\<rparr>
               in case for_each (bake_material folderpath bake_type original_material_order)
                         [0..<length (slots s1)] s1 of
                    Inl e \<Rightarrow> Inl e
                  | Inr s2 \<Rightarrow>
                      (case combine s2 of
                         None \<Rightarrow> Inl (KeyError ''.Combine colors'')
                       | Some cmb2 \<Rightarrow>
                           Inr (s2\<lparr>combine := Some (cmb2\<lparr>mix_link := Some (''input'', 2)\<rparr>)\<rparr>))))"

subsection \<open>Well-formed scenes and what a render sees\<close>

text \<open>
  The host keeps the names of the materials distinct and non-empty, and a slot refers to a
  material that exists.
\<close>

definition wf_scene :: "bake_scene \<Rightarrow> bool" where
  "wf_scene s \<longleftrightarrow>
     distinct (map mat_name (materials s)) \<and> [] \<notin> set (map mat_name (materials s)) \<and>
     (\<forall>sl \<in> set (slots s). case sl of None \<Rightarrow> True | Some i \<Rightarrow> i < length (materials s))"

text \<open>The image inputs of a textures group: the images of its image texture nodes.\<close>

definition image_input :: "node \<Rightarrow> image option" where
  "image_input n = (if node_type n = ''TEX_IMAGE'' then node_image n else None)"

definition input_images :: "textures_group \<Rightarrow> image list" where
  "input_images tg = List.map_filter image_input (group_nodes tg)"

definition area :: "image \<Rightarrow> nat" where
  "area img = fst (img_size img) * snd (img_size img)"

text \<open>An image of the highest resolution among \<open>imgs\<close>: none has more pixels.\<close>

definition highest_resolution_image :: "image list \<Rightarrow> image \<Rightarrow> bool" where
  "highest_resolution_image imgs img \<longleftrightarrow>
     img \<in> set imgs \<and> (\<forall>j \<in> set imgs. area j \<le> area img)"

text \<open>An image is either empty (0 by 0, no pixel data) or has a width and a height.\<close>

definition proper_size :: "image \<Rightarrow> bool" where
  "proper_size img \<longleftrightarrow> (fst (img_size img) = 0) = (snd (img_size img) = 0)"

text \<open>The resolution as the specification words it: the ceiling of the dimensions of the
  image times the multiplier.\<close>

definition spec_resolution :: "image \<Rightarrow> real \<Rightarrow> int \<times> int" where
  "spec_resolution img multiplier =
     (\<lceil>real (fst (img_size img)) * multiplier\<rceil>, \<lceil>real (snd (img_size img)) * multiplier\<rceil>)"

definition shot_resolution :: "render_shot \<Rightarrow> int \<times> int" where
  "shot_resolution shot = (resolution_x (shot_settings shot), resolution_y (shot_settings shot))"

text \<open>The material on the filler plane in a render, which is the one being baked.\<close>

definition shot_exposed :: "render_shot \<Rightarrow> material option" where
  "shot_exposed shot =
     (case shot_filler shot of Some cur # _ \<Rightarrow> Some (shot_materials shot ! cur) | _ \<Rightarrow> None)"

definition shots_of :: "error + bake_scene \<Rightarrow> render_shot list" where
  "shots_of r = (case r of Inl e \<Rightarrow> [] | Inr s \<Rightarrow> shots s)"

subsection \<open>Example scenes\<close>

definition demo_textures :: textures_group where
  "demo_textures = \<lparr>group_nodes =
        [\<lparr>node_name = ''shade'', node_type = ''GROUP'', node_image = None, node_inputs = [0, 1]\<rparr>,
         \<lparr>node_name = ''maintex'', node_type = ''TEX_IMAGE'',
           node_image = Some \<lparr>img_name = ''body.png'', img_size = (5, 3)\<rparr>, node_inputs = []\<rparr>,
         \<lparr>node_name = ''detail'', node_type = ''TEX_IMAGE'',
           node_image = Some \<lparr>img_name = ''detail.png'', img_size = (2, 2)\<rparr>, node_inputs = []\<rparr>],
        n_outputs = 2\<rparr>"

definition demo_body :: material where
  "demo_body = \<lparr>mat_name = ''KK Body'', bake = True, simple = False,
     textures = Some demo_textures,
     out_input = Some (Some (''combine'', 0)), combine_node = True,
     use_fake_user = False, blend_method = ''HASHED'', show_transparent_back = True,
     surface_render_method = ''DITHERED'', use_transparency_overlap = False\<rparr>"

text \<open>A bake-tagged material whose textures group holds no image: a solid colour.\<close>

definition demo_solid :: material where
  "demo_solid = \<lparr>mat_name = ''KK Nose'', bake = True, simple = False,
     textures = Some \<lparr>group_nodes = [], n_outputs = 1\<rparr>,
     out_input = Some (Some (''combine'', 0)), combine_node = True,
     use_fake_user = False, blend_method = ''HASHED'', show_transparent_back = True,
     surface_render_method = ''DITHERED'', use_transparency_overlap = False\<rparr>"

definition demo_kage :: material where
  "demo_kage = \<lparr>mat_name = ''KK Eyeline kage Ann'', bake = False, simple = False,
     textures = None, out_input = None, combine_node = False,
     use_fake_user = True, blend_method = ''BLEND'', show_transparent_back = False,
     surface_render_method = ''BLENDED'', use_transparency_overlap = False\<rparr>"

definition demo_scene :: bake_scene where
  "demo_scene = \<lparr>materials = [demo_body, demo_solid, demo_kage],
     slots = [Some 0, Some 1, Some 2], fillerplane = Some [None],
     combine = Some \<lparr>mix_link = Some (''input'', 2), mix_default = 1 / 2\<rparr>,
     render = \<lparr>resolution_x = 1920, resolution_y = 1080, filepath = [],
       file_format = ''PNG'', color_mode = ''RGBA''\<rparr>,
     bake_mult = IntVal 2, char_name = ''Ann'', log = [], shots = []\<rparr>"

definition demo_order :: "string list" where
  "demo_order = [''KK Body'', ''KK Nose'', ''KK Eyeline kage Ann'']"

text \<open>An object whose only bake-tagged material is the solid colour.\<close>

definition solid_scene :: bake_scene where
  "solid_scene = demo_scene\<lparr>slots := [Some 1, Some 2]\<rparr>"

text \<open>The example scene with the multiplier set to the float one and a half, and with the
  multiplier set to the int one.\<close>

definition fractional_scene :: bake_scene where
  "fractional_scene = demo_scene\<lparr>slots := [Some 0], bake_mult := FloatVal (3 / 2)\<rparr>"

definition unit_scene :: bake_scene where
  "unit_scene = demo_scene\<lparr>slots := [Some 0], bake_mult := IntVal 1\<rparr>"

section \<open>The projection rig: setup\_camera and cleanup\<close>

text \<open>
  Objects and their data blocks live in separate registries of the host, each with its own
  name space. An object refers to its data block by the block's name. The model has one
  scene whose objects are all in the view layer, so \<^verbatim>\<open>bpy.data.objects\<close>,
  \<^verbatim>\<open>bpy.context.scene.objects\<close> and \<^verbatim>\<open>bpy.context.view_layer.objects\<close> are the same
  sequence. \<open>obj_drivers\<close> is \<open>None\<close> when the object has no animation data.
\<close>

record object =
  obj_name :: string
  obj_type :: string
  obj_data :: string
  selected :: bool
  modifiers :: "string list"
  obj_drivers :: "string list option"
  scale :: "real \<times> real \<times> real"

text \<open>A data block counts its users: the objects that refer to it, and \<open>other_users\<close>
  for every other reference the host counts (a fake user, an object of another scene).\<close>

record camera_data =
  cam_name :: string
  cam_type :: string
  ortho_scale :: real
  cam_other_users :: nat

record mesh_data =
  mesh_name :: string
  mesh_other_users :: nat

record rig_scene =
  objects :: "object list"
  cameras :: "camera_data list"
  meshes :: "mesh_data list"
  node_groups :: "string list"
  active_object :: "string option"
  scene_camera :: "string option"
  pixel_aspect_x :: real
  pixel_aspect_y :: real

definition camera_users :: "rig_scene \<Rightarrow> camera_data \<Rightarrow> nat" where
  "camera_users s c =
     length (filter (\<lambda>ob. obj_type ob = ''CAMERA'' \<and> obj_data ob = cam_name c) (objects s))
     + cam_other_users c"

definition mesh_users :: "rig_scene \<Rightarrow> mesh_data \<Rightarrow> nat" where
  "mesh_users s m =
     length (filter (\<lambda>ob. obj_type ob = ''MESH'' \<and> obj_data ob = mesh_name m) (objects s))
     + mesh_other_users m"

subsection \<open>Names given by the host\<close>

text \<open>
  A data block gets the name asked for when it is free in its registry (\<open>taken\<close> tells
  which names are in use), and otherwise the first free one of \<^verbatim>\<open>name.001\<close>,
  \<^verbatim>\<open>name.002\<close> and so on up to \<^verbatim>\<open>name.999\<close>. What the host does when all of these
  are in use is not modelled beyond the name having a longer number.
\<close>

definition digit :: "nat \<Rightarrow> char" where
  "digit d = char_of (48 + d)"

definition numbered :: "string \<Rightarrow> nat \<Rightarrow> string" where
  "numbered base n =
     base @ [CHR ''.'', digit (n div 100 mod 10), digit (n div 10 mod 10), digit (n mod 10)]"

fun first_free :: "(nat \<Rightarrow> bool) \<Rightarrow> nat \<Rightarrow> nat \<Rightarrow> nat option" where
  "first_free taken n 0 = None"
| "first_free taken n (Suc fuel) =
     (if \<not> taken n then Some n else first_free taken (Suc n) fuel)"

definition unique_name :: "string \<Rightarrow> (string \<Rightarrow> bool) \<Rightarrow> string" where
  "unique_name base taken =
     (if \<not> taken base then base
      else case first_free (\<lambda>n. taken (numbered base n)) 1 999 of
             Some n \<Rightarrow> numbered base n
           | None \<Rightarrow> base @ ''.1000'')"

text \<open>Python's \<^verbatim>\<open>sub in text\<close> for strings.\<close>

fun starts_with :: "string \<Rightarrow> string \<Rightarrow> bool" where
  "starts_with [] text = True"
| "starts_with (c # sub) [] = False"
| "starts_with (c # sub) (d # text) = (c = d \<and> starts_with sub text)"

fun contains :: "string \<Rightarrow> string \<Rightarrow> bool" where
  "contains sub [] = (sub = [])"
| "contains sub (c # text) = (starts_with sub (c # text) \<or> contains sub text)"

subsection \<open>setup\_camera\<close>

text \<open>Lines 33-35 and 249-251: the camera data blocks without users are removed.\<close>

definition purge_cameras :: "rig_scene \<Rightarrow> rig_scene" where
  "purge_cameras s = s\<lparr>cameras := filter (\<lambda>block. camera_users s block \<noteq> 0) (cameras s)\<rparr>"

text \<open>
  \<^verbatim>\<open>bpy.ops.object.camera_add\<close>: the host creates a camera data block and an object
  that uses it, each named \<^verbatim>\<open>Camera\<close> in its own registry, deselects the other
  objects and makes the new object the selected, active one. A new camera data block is
  a perspective camera, with the host's default orthographic scale of 6.
\<close>

definition camera_add :: "rig_scene \<Rightarrow> rig_scene" where
  "camera_add s =
     (let data_name = unique_name ''Camera'' (\<lambda>n. n \<in> set (map cam_name (cameras s)));
          object_name = unique_name ''Camera'' (\<lambda>n. n \<in> set (map obj_name (objects s)))
      in s\<lparr>cameras := cameras s @
              [\<lparr>cam_name = data_name, cam_type = ''PERSP'', ortho_scale = 6, cam_other_users = 0\<rparr>],
            objects := map (\<lambda>ob. ob\<lparr>selected := False\<rparr>) (objects s) @
              [\<lparr>obj_name = object_name, obj_type = ''CAMERA'', obj_data = data_name,
                selected = True, modifiers = [], obj_drivers = None, scale = (1, 1, 1)\<rparr>],
            active_object := Some object_name\<rparr>)"

text \<open>\<^verbatim>\<open>bpy.data.cameras[name].attribute = value\<close>: the first block of that name.\<close>

fun cameras_set :: "string \<Rightarrow> (camera_data \<Rightarrow> camera_data) \<Rightarrow> camera_data list
    \<Rightarrow> camera_data list option" where
  "cameras_set n f [] = None"
| "cameras_set n f (c # cs) =
     (if cam_name c = n then Some (f c # cs) else map_option ((#) c) (cameras_set n f cs))"

text \<open>Lines 25-48. The result is the name of the new camera object and the scene.\<close>

definition setup_camera :: "rig_scene \<Rightarrow> error + (string \<times> rig_scene)" where
  "setup_camera s =
     (let s1 = s\<lparr>objects := map (\<lambda>obj. obj\<lparr>selected := (obj_type obj = ''CAMERA'')\<rparr>) (objects s)\<rparr>;
          s2 = s1\<lparr>objects := filter (\<lambda>obj. \<not> selected obj) (objects s1)\<rparr>;
          s3 = purge_cameras s2;
          s4 = camera_add s3
      in case active_object s4 of
           None \<Rightarrow> Inl AttributeError
         | Some camera \<Rightarrow>
             let s5 = s4\<lparr>scene_camera := Some camera\<rparr> in
             (case cameras_set camera (\<lambda>c. c\<lparr>cam_type := ''ORTHO''\<rparr>) (cameras s5) of
                None \<Rightarrow> Inl (KeyError camera)
              | Some cs \<Rightarrow>
                  (case cameras_set camera (\<lambda>c. c\<lparr>ortho_scale := 6\<rparr>) cs of
                     None \<Rightarrow> Inl (KeyError camera)
                   | Some cs' \<Rightarrow>
                       Inr (camera, s5\<lparr>cameras := cs', pixel_aspect_y := 1, pixel_aspect_x := 1\<rparr>))))"

text \<open>The camera objects of a scene, and the data block of an object.\<close>

definition camera_objects :: "rig_scene \<Rightarrow> object list" where
  "camera_objects s = filter (\<lambda>ob. obj_type ob = ''CAMERA'') (objects s)"

definition camera_data_of :: "rig_scene \<Rightarrow> object \<Rightarrow> camera_data option" where
  "camera_data_of s ob = List.find (\<lambda>c. cam_name c = obj_data ob) (cameras s)"

subsection \<open>cleanup\<close>

text \<open>
  An exception leaves the scene as it is at the raise, so cleanup returns the exception, if
  any, together with the scene it leaves behind.
\<close>

fun for_each_st :: "('a \<Rightarrow> 's \<Rightarrow> error option \<times> 's) \<Rightarrow> 'a list \<Rightarrow> 's \<Rightarrow> error option \<times> 's" where
  "for_each_st body [] s = (None, s)"
| "for_each_st body (x # xs) s =
     (case body x s of (Some e, s') \<Rightarrow> (Some e, s') | (None, s') \<Rightarrow> for_each_st body xs s')"

text \<open>Line 238.\<close>

definition deselect_all :: "rig_scene \<Rightarrow> rig_scene" where
  "deselect_all s = s\<lparr>objects := map (\<lambda>ob. ob\<lparr>selected := False\<rparr>) (objects s)\<rparr>"

text \<open>Lines 240-244: the camera objects, then the objects with \<^verbatim>\<open>fillerplane\<close> in their
  name, are removed.\<close>

definition remove_rig_objects :: "rig_scene \<Rightarrow> rig_scene" where
  "remove_rig_objects s =
     (let s1 = s\<lparr>objects := filter (\<lambda>ob. obj_type ob \<noteq> ''CAMERA'') (objects s)\<rparr>
      in s1\<lparr>objects := filter (\<lambda>ob. \<not> contains ''fillerplane'' (obj_name ob)) (objects s1)\<rparr>)"

text \<open>Lines 246-251.\<close>

definition purge_orphans :: "rig_scene \<Rightarrow> rig_scene" where
  "purge_orphans s =
     purge_cameras (s\<lparr>meshes := filter (\<lambda>block. mesh_users s block \<noteq> 0) (meshes s)\<rparr>)"

text \<open>Lines 254-259, for the object at position \<open>i\<close>.\<close>

definition remove_flattener :: "nat \<Rightarrow> rig_scene \<Rightarrow> error option \<times> rig_scene" where
  "remove_flattener i s =
     (let ob = objects s ! i in
      if ''Flattener'' \<in> set (modifiers ob) then
        (let ob1 = ob\<lparr>modifiers := remove1 ''Flattener'' (modifiers ob)\<rparr>;
             s1 = s\<lparr>objects := (objects s)[i := ob1]\<rparr>
         in case obj_drivers ob1 of
              None \<Rightarrow> (Some AttributeError, s1)
            | Some [] \<Rightarrow> (Some IndexError, s1)
            | Some [d] \<Rightarrow>
                (Some IndexError, s1\<lparr>objects := (objects s1)[i := ob1\<lparr>obj_drivers := Some []\<rparr>]\<rparr>)
            | Some (d # d' # ds) \<Rightarrow>
                (None, s1\<lparr>objects := (objects s1)[i := ob1\<lparr>obj_drivers := Some ds, scale := (1, 1, 1)\<rparr>]\<rparr>))
      else (None, s))"

text \<open>Lines 236-260.\<close>

definition cleanup :: "rig_scene \<Rightarrow> error option \<times> rig_scene" where
  "cleanup s =
     (let s1 = purge_orphans (remove_rig_objects (deselect_all s)) in
      case for_each_st remove_flattener
             (filter (\<lambda>i. obj_type (objects s1 ! i) = ''MESH'') [0..<length (objects s1)]) s1 of
        (Some e, s2) \<Rightarrow> (Some e, s2)
      | (None, s2) \<Rightarrow>
          if ''.Geometry Nodes'' \<in> set (node_groups s2)
          then (None, s2\<lparr>node_groups := remove1 ''.Geometry Nodes'' (node_groups s2)\<rparr>)
          else (Some (KeyError ''.Geometry Nodes''), s2))"

text \<open>A scene that is already clean: no camera, no filler plane, no \<^verbatim>\<open>Flattener\<close>
  modifier and no flattening node group.\<close>

definition clean_scene :: "rig_scene \<Rightarrow> bool" where
  "clean_scene s \<longleftrightarrow>
     list_all (\<lambda>ob. obj_type ob \<noteq> ''CAMERA'' \<and> \<not> contains ''fillerplane'' (obj_name ob)
                 \<and> ''Flattener'' \<notin> set (modifiers ob)) (objects s)
     \<and> ''.Geometry Nodes'' \<notin> set (node_groups s)"

subsection \<open>Example scenes\<close>

definition user_camera :: object where
  "user_camera = \<lparr>obj_name = ''Camera'', obj_type = ''CAMERA'', obj_data = ''Camera'',
     selected = False, modifiers = [], obj_drivers = None, scale = (1, 1, 1)\<rparr>"

definition body_object :: object where
  "body_object = \<lparr>obj_name = ''Body'', obj_type = ''MESH'', obj_data = ''Body'',
     selected = True, modifiers = [''Armature''], obj_drivers = None, scale = (1, 1, 1)\<rparr>"

text \<open>A scene with the model and a camera of the user's, whose data block the user has
  protected with a fake user.\<close>

definition user_camera_scene :: rig_scene where
  "user_camera_scene = \<lparr>objects = [body_object, user_camera],
     cameras = [\<lparr>cam_name = ''Camera'', cam_type = ''PERSP'', ortho_scale = 6, cam_other_users = 1\<rparr>],
     meshes = [\<lparr>mesh_name = ''Body'', mesh_other_users = 0\<rparr>],
     node_groups = [''.Combine colors''], active_object = Some ''Body'', scene_camera = Some ''Camera'',
     pixel_aspect_x = 1, pixel_aspect_y = 1\<rparr>"

text \<open>A scene with the model only: what cleanup leaves behind.\<close>

definition model_scene :: rig_scene where
  "model_scene = \<lparr>objects = [body_object], cameras = [],
     meshes = [\<lparr>mesh_name = ''Body'', mesh_other_users = 0\<rparr>],
     node_groups = [''.Combine colors''], active_object = Some ''Body'', scene_camera = None,
     pixel_aspect_x = 1, pixel_aspect_y = 1\<rparr>"


section \<open>Binding the baked images: replace\_all\_baked\_materials\<close>

text \<open>
  \<^verbatim>\<open>bpy.data.images\<close> is a registry keyed by name: the model keeps, for each name in use,
  the size of the image of that name. A node refers to an img by holding it. A file of
  the output directory has a name, the size of the picture in it, and may fail to load.
  \<open>library_simple\<close> is the material \<^verbatim>\<open>KK Simple\<close> of the library file, which
  \<^verbatim>\<open>c.import_from_library_file\<close> appends when asked for, \<open>app_version\<close> the major
  version of the host and \<open>get_name\<close> the value of \<^verbatim>\<open>c.get_name()\<close>.
\<close>

record png_file =
  file_name :: string
  file_size :: "nat \<times> nat"
  readable :: bool

record rebind_scene =
  data_materials :: "material list"
  material_slots :: "mat_id option list"
  data_images :: "string \<rightharpoonup> nat \<times> nat"
  library_simple :: "material option"
  shader_dropdown :: string
  app_version :: nat
  get_name :: string
  kklog_lines :: "string list"

text \<open>\<^verbatim>\<open>text.replace(sub, '')\<close> for a non-empty \<open>sub\<close>, and the suffix test
  \<^verbatim>\<open>text[-4:] == suffix\<close> with \<^verbatim>\<open>text[:-4]\<close>.\<close>

function remove_all :: "string \<Rightarrow> string \<Rightarrow> string" where
  "remove_all sub [] = []"
| "remove_all sub (c # text) =
     (if sub \<noteq> [] \<and> starts_with sub (c # text)
      then remove_all sub (drop (length sub) (c # text))
      else c # remove_all sub text)"
  by pat_completeness auto
termination
  by (relation "measure (\<lambda>(sub, text). length text)") auto

definition strip_org :: "string \<Rightarrow> string" where
  "strip_org name = remove_all ''-ORG'' name"

definition last4 :: "string \<Rightarrow> string" where
  "last4 text = drop (length text - 4) text"

definition but_last4 :: "string \<Rightarrow> string" where
  "but_last4 text = take (length text - 4) text"

text \<open>\<^verbatim>\<open>bpy.data.images.get(name)\<close>.\<close>

definition images_get :: "rebind_scene \<Rightarrow> string \<Rightarrow> image option" where
  "images_get s name =
     map_option (\<lambda>size. \<lparr>img_name = name, img_size = size\<rparr>) (data_images s name)"

text \<open>Every user of the img \<open>old\<close> in a material becomes a user of \<open>new\<close>.\<close>

definition remap_node :: "image \<Rightarrow> image \<Rightarrow> node \<Rightarrow> node" where
  "remap_node old new n = (if node_image n = Some old then n\<lparr>node_image := Some new\<rparr> else n)"

definition remap_material :: "image \<Rightarrow> image \<Rightarrow> material \<Rightarrow> material" where
  "remap_material old new m =
     (case textures m of
        None \<Rightarrow> m
      | Some tg \<Rightarrow> m\<lparr>textures := Some (tg\<lparr>group_nodes := map (remap_node old new) (group_nodes tg)\<rparr>)\<rparr>)"

text \<open>
  Lines 266-277, for one file. The host gives the loaded img the name of the file, made
  unique. When that name ends in \<^verbatim>\<open>.001\<close> and the image without the suffix exists, the
  users of the older img are handed to the new one, the older img is removed and the
  new one takes its name; the new image is fresh, so it has no other user.
\<close>

definition load_image :: "string \<Rightarrow> png_file \<Rightarrow> rebind_scene \<Rightarrow> rebind_scene" where
  "load_image folderpath file s =
     (if \<not> readable file then
        s\<lparr>kklog_lines := kklog_lines s @
            [''Could not load in file because the name exceeds 64 characters: ''
             @ folderpath @ file_name file]\<rparr>
      else
        let name = unique_name (file_name file) (\<lambda>n. data_images s n \<noteq> None);
            s1 = s\<lparr>data_images := (data_images s)(name \<mapsto> file_size file)\<rparr>
        in if last4 name = ''.001'' then
             (case images_get s1 (but_last4 name) of
                None \<Rightarrow> s1
              | Some old \<Rightarrow>
                  s1\<lparr>data_materials :=
                       map (remap_material old \<lparr>img_name = but_last4 name, img_size = file_size file\<rparr>)
                         (data_materials s1),
                     data_images :=
                       ((data_images s1)(but_last4 name := None, name := None))
                         (but_last4 name \<mapsto> file_size file)\<rparr>)
           else s1)"

text \<open>\<^verbatim>\<open>simple.node_tree.nodes['textures'].node_tree.nodes[bake_type].img = img\<close>.\<close>

definition set_node_image :: "string \<Rightarrow> image \<Rightarrow> material \<Rightarrow> error + material" where
  "set_node_image bake_type img m =
     (case textures m of
        None \<Rightarrow> Inl (KeyError ''textures'')
      | Some tg \<Rightarrow>
          (case nodes_get (group_nodes tg) bake_type of
             None \<Rightarrow> Inl (KeyError bake_type)
           | Some k \<Rightarrow>
               Inr (m\<lparr>textures := Some (tg\<lparr>group_nodes :=
                      (group_nodes tg)[k := (group_nodes tg ! k)\<lparr>node_image := Some img\<rparr>]\<rparr>)\<rparr>)))"

text \<open>The names of the materials other than the one at position \<open>k\<close>.\<close>

definition other_names :: "nat \<Rightarrow> material list \<Rightarrow> string list" where
  "other_names k ms = map mat_name (take k ms @ drop (Suc k) ms)"

text \<open>
  Lines 303-307: a copy of the material \<^verbatim>\<open>KK Simple\<close>, which is first imported from the
  library when the lookup fails. The result is the position of the copy.
\<close>

definition material_copy :: "mat_id \<Rightarrow> rebind_scene \<Rightarrow> mat_id \<times> rebind_scene" where
  "material_copy k s =
     (let ms = data_materials s;
          duplicate = (ms ! k)\<lparr>mat_name :=
             unique_name (mat_name (ms ! k)) (\<lambda>n. n \<in> set (map mat_name ms))\<rparr>
      in (length ms, s\<lparr>data_materials := ms @ [duplicate]\<rparr>))"

definition kk_simple_copy :: "rebind_scene \<Rightarrow> error + (mat_id \<times> rebind_scene)" where
  "kk_simple_copy s =
     (case materials_get (data_materials s) ''KK Simple'' of
        Some k \<Rightarrow> Inr (material_copy k s)
      | None \<Rightarrow>
          (case library_simple s of
             None \<Rightarrow> Inl (KeyError ''KK Simple'')
           | Some lib \<Rightarrow>
               let s1 = s\<lparr>data_materials := data_materials s @
                          [lib\<lparr>mat_name := ''KK Simple'', use_fake_user := False\<rparr>]\<rparr>
               in Inr (material_copy (length (data_materials s)) s1)))"

text \<open>Lines 320-331, the local function \<^verbatim>\<open>replace_mat\<close>: the slot \<open>i\<close> takes the
  material \<open>sid\<close>, which inherits the blend setting of the material it replaces.\<close>

definition replace_mat :: "nat \<Rightarrow> mat_id \<Rightarrow> rebind_scene \<Rightarrow> error + rebind_scene" where
  "replace_mat i sid s =
     (case material_slots s ! i of
        None \<Rightarrow> Inl AttributeError
      | Some cur \<Rightarrow>
          let ms = data_materials s;
              s1 = s\<lparr>material_slots := (material_slots s)[i := Some sid]\<rparr>;
              simple0 = ms ! sid;
              simple1 =
                (if 3 < app_version s then
                   simple0\<lparr>surface_render_method := surface_render_method (ms ! cur),
                     use_transparency_overlap :=
                       contains (''KK Eyewhites (sirome) '' @ get_name s) (mat_name simple0)\<rparr>
                 else
                   simple0\<lparr>blend_method := blend_method (ms ! cur),
                     show_transparent_back := False\<rparr>)
          in Inr (s1\<lparr>data_materials := ms[sid := simple1\<lparr>simple := True\<rparr>]\<rparr>))"

text \<open>
  Lines 300-343: the material \<open>cur\<close> in slot \<open>i\<close> has no simplified version yet. With the
  shader selection \<^verbatim>\<open>C\<close> the code goes on to put a copy of a node group into the slot,
  which the host refuses, a slot taking materials only.
\<close>

definition create_simple :: "string \<Rightarrow> image \<Rightarrow> nat \<Rightarrow> mat_id \<Rightarrow> rebind_scene \<Rightarrow> error + rebind_scene" where
  "create_simple bake_type img i cur s =
     (let ms = data_materials s;
          renamed = (ms ! cur)\<lparr>mat_name :=
             unique_name (mat_name (ms ! cur) @ ''-ORG'') (\<lambda>n. n \<in> set (other_names cur ms))\<rparr>;
          s1 = s\<lparr>data_materials := ms[cur := renamed]\<rparr>
      in case kk_simple_copy s1 of
           Inl e \<Rightarrow> Inl e
         | Inr (sid, s2) \<Rightarrow>
             let ms2 = data_materials s2;
                 simple1 = (ms2 ! sid)\<lparr>mat_name :=
                    unique_name (strip_org (mat_name (ms2 ! cur)))
                      (\<lambda>n. n \<in> set (other_names sid ms2))\<rparr>
             in case set_node_image bake_type img simple1 of
                  Inl e \<Rightarrow> Inl e
                | Inr simple2 \<Rightarrow>
                    (case (if bake_type = ''light'' then set_node_image ''dark'' img simple2
                           else Inr simple2) of
                       Inl e \<Rightarrow> Inl e
                     | Inr simple3 \<Rightarrow>
                         let s3 = s2\<lparr>data_materials :=
                                ms2[sid := simple3, cur := (ms2 ! cur)\<lparr>use_fake_user := True\<rparr>]\<rparr>
                         in case replace_mat i sid s3 of
                              Inl e \<Rightarrow> Inl e
                            | Inr s4 \<Rightarrow>
                                if shader_dropdown s4 = ''C'' then Inl TypeError
                                else Inr s4))"

text \<open>Line 282: the name of the baked image of a material for a pass type.\<close>

definition image_key :: "material \<Rightarrow> string \<Rightarrow> string" where
  "image_key m bake_type = strip_org (mat_name m) @ '' '' @ bake_type @ ''.png''"

text \<open>Lines 282-343: the body of the loops, for one pass type and the slot \<open>i\<close>.\<close>

definition rebind_slot :: "string \<Rightarrow> nat \<Rightarrow> rebind_scene \<Rightarrow> error + rebind_scene" where
  "rebind_slot bake_type i s =
     (case material_slots s ! i of
        None \<Rightarrow> Inl AttributeError
      | Some cur \<Rightarrow>
          let ms = data_materials s; m = ms ! cur in
          case images_get s (image_key m bake_type) of
            None \<Rightarrow> Inr s
          | Some img \<Rightarrow>
              if simple m then
                (case set_node_image bake_type img m of
                   Inl e \<Rightarrow> Inl e
                 | Inr m' \<Rightarrow> Inr (s\<lparr>data_materials := ms[cur := m']\<rparr>))
              else if bake m \<and> contains ''-ORG'' (mat_name m)
                      \<and> materials_get ms (strip_org (mat_name m)) \<noteq> None then
                (case materials_get ms (strip_org (mat_name m)) of
                   None \<Rightarrow> Inl (KeyError (strip_org (mat_name m)))
                 | Some sid \<Rightarrow>
                     (case set_node_image bake_type img (ms ! sid) of
                        Inl e \<Rightarrow> Inl e
                      | Inr m' \<Rightarrow>
                          Inr (s\<lparr>material_slots := (material_slots s)[i := Some sid],
                                 data_materials := ms[sid := m']\<rparr>)))
              else if bake m then create_simple bake_type img i cur s
              else Inr s)"

text \<open>Lines 280-281.\<close>

definition rebind_pass :: "string \<Rightarrow> rebind_scene \<Rightarrow> error + rebind_scene" where
  "rebind_pass bake_type s =
     for_each (rebind_slot bake_type) [0..<length (material_slots s)] s"

definition rebind_materials :: "rebind_scene \<Rightarrow> error + rebind_scene" where
  "rebind_materials s = for_each rebind_pass [''light'', ''dark'', ''normal''] s"

text \<open>Lines 262-343. \<open>files\<close> are the files \<^verbatim>\<open>*.png\<close> of the directory.\<close>

definition replace_all_baked_materials ::
  "string \<Rightarrow> png_file list \<Rightarrow> rebind_scene \<Rightarrow> error + rebind_scene" where
  "replace_all_baked_materials folderpath files s =
     rebind_materials (fold (load_image folderpath) files s)"

text \<open>The image in the node of a material's textures group that has the given name.\<close>

definition node_image_of :: "string \<Rightarrow> material \<Rightarrow> image option" where
  "node_image_of n m =
     (case textures m of
        None \<Rightarrow> None
      | Some tg \<Rightarrow>
          (case nodes_get (group_nodes tg) n of
             None \<Rightarrow> None
           | Some k \<Rightarrow> node_image (group_nodes tg ! k)))"

subsection \<open>The states that rebinding works on\<close>

text \<open>
  The material names contain the marker \<^verbatim>\<open>-ORG\<close> only where the function itself puts it.
  A slot refers to a material of the file, and not to the template \<^verbatim>\<open>KK Simple\<close>.
\<close>

definition slots_ok :: "material list \<Rightarrow> mat_id option list \<Rightarrow> bool" where
  "slots_ok ms sls \<longleftrightarrow>
     list_all (\<lambda>sl. case sl of None \<Rightarrow> True
                 | Some j \<Rightarrow> j < length ms \<and> strip_org (mat_name (ms ! j)) \<noteq> ''KK Simple'') sls"

text \<open>An original is a renamed material: it is bake tagged, it is not simplified, its name is
  the name of a simplified material followed by \<^verbatim>\<open>-ORG\<close>.\<close>

definition original_ok :: "material list \<Rightarrow> material \<Rightarrow> bool" where
  "original_ok ms m \<longleftrightarrow>
     bake m \<and> \<not> simple m \<and> last4 (mat_name m) = ''-ORG''
     \<and> \<not> contains ''-ORG'' (but_last4 (mat_name m))
     \<and> list_ex (\<lambda>t. mat_name t = but_last4 (mat_name m) \<and> simple t) ms"

definition originals_ok :: "material list \<Rightarrow> bool" where
  "originals_ok ms \<longleftrightarrow>
     list_all (\<lambda>m. contains ''-ORG'' (mat_name m) \<longrightarrow> original_ok ms m) ms"

text \<open>The host keeps the names of the materials distinct.\<close>

definition tidy :: "rebind_scene \<Rightarrow> bool" where
  "tidy s \<longleftrightarrow>
     distinct (map mat_name (data_materials s)) \<and>
     slots_ok (data_materials s) (material_slots s) \<and>
     originals_ok (data_materials s)"

text \<open>
  A slot is settled for a pass type when the loop body has nothing left to do for it: there
  is no image for the material, or the material is simplified and holds the image, or the
  material is neither simplified nor bake tagged.
\<close>

definition settled :: "string \<Rightarrow> nat \<Rightarrow> rebind_scene \<Rightarrow> bool" where
  "settled bake_type i s \<longleftrightarrow>
     (case material_slots s ! i of
        None \<Rightarrow> False
      | Some j \<Rightarrow>
          (case images_get s (image_key (data_materials s ! j) bake_type) of
             None \<Rightarrow> True
           | Some img \<Rightarrow>
               simple (data_materials s ! j) \<and> node_image_of bake_type (data_materials s ! j) = Some img
               \<or> \<not> simple (data_materials s ! j) \<and> \<not> bake (data_materials s ! j)))"


text \<open>
  What one iteration may change: the images stay, the materials that exist keep their
  name up to the marker, their tags, and their node images unless the image of their name
  is bound; a slot changes only from a bake tagged material to a material of the same name
  up to the marker.
\<close>

definition evolves :: "rebind_scene \<Rightarrow> rebind_scene \<Rightarrow> bool" where
  "evolves s s' \<longleftrightarrow>
     data_images s' = data_images s \<and>
     length (material_slots s') = length (material_slots s) \<and>
     length (data_materials s) \<le> length (data_materials s') \<and>
     (\<forall>j < length (data_materials s).
        strip_org (mat_name (data_materials s' ! j)) = strip_org (mat_name (data_materials s ! j))
        \<and> bake (data_materials s' ! j) = bake (data_materials s ! j)
        \<and> simple (data_materials s' ! j) = simple (data_materials s ! j)
        \<and> (\<forall>bt. node_image_of bt (data_materials s' ! j) = node_image_of bt (data_materials s ! j)
              \<or> images_get s (image_key (data_materials s ! j) bt) \<noteq> None
                \<and> node_image_of bt (data_materials s' ! j)
                    = images_get s (image_key (data_materials s ! j) bt))) \<and>
     (\<forall>i < length (material_slots s).
        material_slots s' ! i = material_slots s ! i
        \<or> (\<exists>j j'. material_slots s ! i = Some j \<and> material_slots s' ! i = Some j'
              \<and> bake (data_materials s ! j) \<and> \<not> simple (data_materials s ! j)
              \<and> strip_org (mat_name (data_materials s' ! j'))
                  = strip_org (mat_name (data_materials s ! j))))"

text \<open>The directory listing \<^verbatim>\<open>glob('*.png')\<close> gives names that end in \<^verbatim>\<open>.png\<close>.\<close>

definition is_png :: "string \<Rightarrow> bool" where
  "is_png n \<longleftrightarrow> last4 n = ''.png''"


text \<open>\<^verbatim>\<open>name.endswith(suffix)\<close>.\<close>

definition ends_with :: "string \<Rightarrow> string \<Rightarrow> bool" where
  "ends_with suffix name \<longleftrightarrow> drop (length name - length suffix) name = suffix"

text \<open>Only the light pass was baked: no image is named as the result of a dark or of a
  normal pass.\<close>

definition only_light :: "rebind_scene \<Rightarrow> bool" where
  "only_light s \<longleftrightarrow>
     (\<forall>n. ends_with '' dark.png'' n \<or> ends_with '' normal.png'' n \<longrightarrow> data_images s n = None)"

text \<open>
  Every material from position \<open>n0\<close> on, the template \<^verbatim>\<open>KK Simple\<close> apart, is simplified
  and holds the light image of its name in the light node and in the dark node.
\<close>

definition paired :: "nat \<Rightarrow> rebind_scene \<Rightarrow> bool" where
  "paired n0 s \<longleftrightarrow>
     (\<forall>j < length (data_materials s). n0 \<le> j \<longrightarrow>
        strip_org (mat_name (data_materials s ! j)) \<noteq> ''KK Simple'' \<longrightarrow>
        simple (data_materials s ! j)
        \<and> images_get s (image_key (data_materials s ! j) ''light'') \<noteq> None
        \<and> node_image_of ''light'' (data_materials s ! j)
            = images_get s (image_key (data_materials s ! j) ''light'')
        \<and> node_image_of ''dark'' (data_materials s ! j)
            = images_get s (image_key (data_materials s ! j) ''light''))"

subsection \<open>Example scene\<close>

definition simple_textures :: textures_group where
  "simple_textures = \<lparr>group_nodes =
        [\<lparr>node_name = ''light'', node_type = ''TEX_IMAGE'', node_image = None, node_inputs = []\<rparr>,
         \<lparr>node_name = ''dark'', node_type = ''TEX_IMAGE'', node_image = None, node_inputs = []\<rparr>,
         \<lparr>node_name = ''normal'', node_type = ''TEX_IMAGE'', node_image = None, node_inputs = []\<rparr>],
        n_outputs = 3\<rparr>"

definition kk_simple :: material where
  "kk_simple = \<lparr>mat_name = ''KK Simple'', bake = False, simple = False,
     textures = Some simple_textures,
     out_input = Some (Some (''textures'', 0)), combine_node = False,
     use_fake_user = True, blend_method = ''OPAQUE'', show_transparent_back = True,
     surface_render_method = ''DITHERED'', use_transparency_overlap = False\<rparr>"

definition baked_scene :: rebind_scene where
  "baked_scene = \<lparr>data_materials = [demo_body, demo_solid, demo_kage],
     material_slots = [Some 0, Some 1, Some 2],
     data_images = Map.empty, library_simple = Some kk_simple,
     shader_dropdown = ''A'', app_version = 4, get_name = ''Ann'', kklog_lines = []\<rparr>"

text \<open>The output directory after a bake of the light pass only.\<close>

definition light_files :: "png_file list" where
  "light_files =
     [\<lparr>file_name = ''KK Body light.png'', file_size = (10, 6), readable = True\<rparr>,
      \<lparr>file_name = ''KK Nose light.png'', file_size = (4, 4), readable = True\<rparr>]"

text \<open>
  A scene whose material was simplified by an earlier call: the slot holds the simplified
  material, whose light node holds the light image and whose dark node holds no image.
  Lines 360-366 of create\_material\_atlas leave the nodes so after a bake of the light
  pass alone: they bind to each node the image of its pass type, or nothing when there is
  no such image.
\<close>

definition simplified_scene :: rebind_scene where
  "simplified_scene = \<lparr>data_materials =
       [demo_body\<lparr>mat_name := ''KK Body-ORG'', use_fake_user := True\<rparr>,
        kk_simple\<lparr>mat_name := ''KK Body'', simple := True, use_fake_user := False,
          textures := Some (simple_textures\<lparr>group_nodes :=
            [\<lparr>node_name = ''light'', node_type = ''TEX_IMAGE'',
               node_image = Some \<lparr>img_name = ''KK Body light.png'', img_size = (10, 6)\<rparr>,
               node_inputs = []\<rparr>,
             \<lparr>node_name = ''dark'', node_type = ''TEX_IMAGE'', node_image = None, node_inputs = []\<rparr>,
             \<lparr>node_name = ''normal'', node_type = ''TEX_IMAGE'', node_image = None, node_inputs = []\<rparr>]\<rparr>)\<rparr>],
     material_slots = [Some 1],
     data_images = [''KK Body light.png'' \<mapsto> (10, 6)], library_simple = Some kk_simple,
     shader_dropdown = ''A'', app_version = 4, get_name = ''Ann'', kklog_lines = []\<rparr>"


section \<open>The operator: bake\_materials.execute\<close>

text \<open>
  The operator runs the statements of its \<^verbatim>\<open>try\<close> block one after the other; each may
  change the host state and may raise. An exception carries the text that
  \<^verbatim>\<open>traceback.format_exc()\<close> gives for it. The state of the operator is the host state
  together with what the handler touches: the log of \<^verbatim>\<open>c.kklog\<close> (message and type),
  the viewport shading, the console and the reports made to the user interface.
\<close>

datatype exception = Exception error string

fun format_exc :: "exception \<Rightarrow> string" where
  "format_exc (Exception e tb) = tb"

datatype status = FINISHED | CANCELLED

record 'h operator_state =
  host :: 'h
  kk_log :: "(string \<times> string option) list"
  viewport_shading :: string
  console_shown :: bool
  reports :: "(string \<times> string) list"

type_synonym 'h stage = "'h operator_state \<Rightarrow> exception option \<times> 'h operator_state"

text \<open>The statements of the \<^verbatim>\<open>try\<close> block in the order they run; the first exception
  ends the block.\<close>

fun run_stages :: "'h stage list \<Rightarrow> 'h stage" where
  "run_stages [] s = (None, s)"
| "run_stages (st # sts) s =
     (case st s of (Some exn, s') \<Rightarrow> (Some exn, s') | (None, s') \<Rightarrow> run_stages sts s')"

definition op_kklog :: "string \<Rightarrow> string option \<Rightarrow> 'h operator_state \<Rightarrow> 'h operator_state" where
  "op_kklog msg type s = s\<lparr>kk_log := kk_log s @ [(msg, type)]\<rparr>"

definition set_viewport_shading :: "string \<Rightarrow> 'h operator_state \<Rightarrow> 'h operator_state" where
  "set_viewport_shading mode s = s\<lparr>viewport_shading := mode\<rparr>"

definition toggle_console :: "'h operator_state \<Rightarrow> 'h operator_state" where
  "toggle_console s = s\<lparr>console_shown := \<not> console_shown s\<rparr>"

definition report :: "string \<Rightarrow> string \<Rightarrow> 'h operator_state \<Rightarrow> 'h operator_state" where
  "report level msg s = s\<lparr>reports := reports s @ [(level, msg)]\<rparr>"

text \<open>
  Lines 553-663. \<open>pipeline\<close> stands for the statements of lines 555-652 and \<open>elapsed\<close>
  for the text of the elapsed time; lines 653-657 end the \<^verbatim>\<open>try\<close> block and lines
  658-663 are the handler, a bare \<^verbatim>\<open>except\<close>.
\<close>

definition execute :: "'h stage list \<Rightarrow> string \<Rightarrow> 'h operator_state \<Rightarrow> status \<times> 'h operator_state" where
  "execute pipeline elapsed s =
     (case run_stages pipeline s of
        (None, s1) \<Rightarrow>
          (FINISHED,
           set_viewport_shading ''SOLID''
             (op_kklog (''Finished in '' @ take 4 elapsed @ ''s'') None (toggle_console s1)))
      | (Some exn, s1) \<Rightarrow>
          (CANCELLED,
           report ''ERROR'' (format_exc exn)
             (set_viewport_shading ''SOLID''
               (op_kklog (format_exc exn) None
                 (op_kklog ''Unknown python error occurred'' (Some ''error'') s1)))))"

text \<open>A function of the module as a statement of the block: \<open>tb\<close> gives the traceback
  text of an error it raises.\<close>

definition cleanup_stage :: "(error \<Rightarrow> string) \<Rightarrow> rig_scene stage" where
  "cleanup_stage tb s =
     (case cleanup (host s) of
        (None, h) \<Rightarrow> (None, s\<lparr>host := h\<rparr>)
      | (Some e, h) \<Rightarrow> (Some (Exception e (tb e)), s\<lparr>host := h\<rparr>))"

definition setup_camera_stage :: "(error \<Rightarrow> string) \<Rightarrow> rig_scene stage" where
  "setup_camera_stage tb s =
     (case setup_camera (host s) of
        Inr (camera, h) \<Rightarrow> (None, s\<lparr>host := h\<rparr>)
      | Inl e \<Rightarrow> (Some (Exception e (tb e)), s))"

definition demo_traceback :: "error \<Rightarrow> string" where
  "demo_traceback e =
     ''Traceback (most recent call last): '' @
     (case e of KeyError k \<Rightarrow> ''KeyError: '' @ k | IndexError \<Rightarrow> ''IndexError''
      | AttributeError \<Rightarrow> ''AttributeError'' | NameError \<Rightarrow> ''NameError''
      | TypeError \<Rightarrow> ''TypeError'')"

definition demo_operator :: "rig_scene operator_state" where
  "demo_operator = \<lparr>host = model_scene, kk_log = [], viewport_shading = ''MATERIAL'',
     console_shown = False, reports = []\<rparr>"


section \<open>Properties\<close>

subsection \<open>Loops and lookups\<close>

lemma materials_get_Some:
  "materials_get ms n = Some j \<Longrightarrow> j < length ms \<and> mat_name (ms ! j) = n"
  by (induction ms arbitrary: j) (auto split: if_splits)

lemma materials_get_nth:
  "distinct (map mat_name ms) \<Longrightarrow> i < length ms \<Longrightarrow> materials_get ms (mat_name (ms ! i)) = Some i"
proof (induction ms arbitrary: i)
  case Nil
  then show ?case by simp
next
  case (Cons m ms)
  show ?case
  proof (cases i)
    case 0
    then show ?thesis by simp
  next
    case (Suc k)
    with Cons.prems have "k < length ms" by simp
    then have "mat_name (ms ! k) \<in> mat_name ` set ms" by simp
    with Cons.prems have "mat_name (ms ! k) \<noteq> mat_name m" by auto
    with Suc Cons show ?thesis by simp
  qed
qed

lemma materials_get_cong:
  "map mat_name ms = map mat_name ms' \<Longrightarrow> materials_get ms n = materials_get ms' n"
proof (induction ms arbitrary: ms')
  case Nil
  then show ?case by simp
next
  case (Cons m ms)
  then obtain m' ms'' where "ms' = m' # ms''" by (cases ms') auto
  with Cons show ?case by auto
qed

lemma for_each_append:
  "for_each body (xs @ ys) s =
     (case for_each body xs s of Inl e \<Rightarrow> Inl e | Inr s' \<Rightarrow> for_each body ys s')"
  by (induction xs arbitrary: s) (auto split: sum.splits)

text \<open>A loop whose body keeps an invariant keeps it.\<close>
lemma for_each_invariant:
  assumes "for_each body xs s = Inr s'"
    and "I s"
    and "\<And>x t t'. x \<in> set xs \<Longrightarrow> I t \<Longrightarrow> body x t = Inr t' \<Longrightarrow> I t'"
  shows "I s'"
  using assms
proof (induction xs arbitrary: s)
  case Nil
  then show ?case by simp
next
  case (Cons x xs)
  then obtain t where t: "body x s = Inr t" and r: "for_each body xs t = Inr s'"
    by (auto split: sum.splits)
  have "I t" using Cons.prems(2) t Cons.prems(3) [of x s t] by simp
  show ?case
  proof (rule Cons.IH [OF r \<open>I t\<close>])
    fix y u u'
    assume "y \<in> set xs" "I u" "body y u = Inr u'"
    then show "I u'" using Cons.prems(3) [of y u u'] by simp
  qed
qed

lemma map_mat_name_update:
  assumes "mat_name m' = mat_name (ms ! i)"
  shows "map mat_name (ms[i := m']) = map mat_name ms"
proof (rule nth_equalityI)
  show "length (map mat_name (ms[i := m'])) = length (map mat_name ms)" by simp
next
  fix k assume "k < length (map mat_name (ms[i := m']))"
  then have k: "k < length ms" by simp
  show "map mat_name (ms[i := m']) ! k = map mat_name ms ! k"
    using k assms by (cases "k = i") simp_all
qed

lemma prepare_material_frame:
  assumes "prepare_material bake_type cur s = Inr (v, s1)"
  shows "slots s1 = slots s \<and> map mat_name (materials s1) = map mat_name (materials s)
     \<and> shots s1 = shots s \<and> log s1 = log s \<and> bake_mult s1 = bake_mult s
     \<and> combine s1 = combine s \<and> fillerplane s1 = fillerplane s \<and> char_name s1 = char_name s"
  using assms
  by (auto simp: prepare_material_def Let_def map_mat_name_update
      split: option.splits if_splits)

lemma restore_material_frame:
  assumes "restore_material bake_type cur v s = Inr s1"
  shows "slots s1 = slots s \<and> map mat_name (materials s1) = map mat_name (materials s)
     \<and> shots s1 = shots s \<and> log s1 = log s \<and> bake_mult s1 = bake_mult s
     \<and> combine s1 = combine s \<and> fillerplane s1 = fillerplane s \<and> char_name s1 = char_name s"
  using assms
  by (auto simp: restore_material_def Let_def map_mat_name_update
      split: option.splits if_splits)

lemma hide_slot_frame:
  assumes "hide_slot cur i s = Inr s1"
  shows "length (slots s1) = length (slots s) \<and> materials s1 = materials s
     \<and> shots s1 = shots s \<and> log s1 = log s \<and> bake_mult s1 = bake_mult s
     \<and> combine s1 = combine s \<and> fillerplane s1 = fillerplane s \<and> char_name s1 = char_name s
     \<and> render s1 = render s"
  using assms
  by (auto simp: hide_slot_def split: option.splits if_splits)

lemma hide_siblings_frame:
  assumes "hide_siblings cur s = Inr s1"
  shows "length (slots s1) = length (slots s) \<and> materials s1 = materials s
     \<and> shots s1 = shots s \<and> log s1 = log s \<and> bake_mult s1 = bake_mult s
     \<and> combine s1 = combine s \<and> fillerplane s1 = fillerplane s \<and> char_name s1 = char_name s
     \<and> render s1 = render s"
proof (rule for_each_invariant [where body = "hide_slot cur" and xs = "[0..<length (slots s)]"
      and s = s and s' = s1])
  show "for_each (hide_slot cur) [0..<length (slots s)] s = Inr s1"
    using assms by (simp add: hide_siblings_def)
  show "length (slots s) = length (slots s) \<and> materials s = materials s
     \<and> shots s = shots s \<and> log s = log s \<and> bake_mult s = bake_mult s
     \<and> combine s = combine s \<and> fillerplane s = fillerplane s \<and> char_name s = char_name s
     \<and> render s = render s" by simp
next
  fix x t t'
  assume "length (slots t) = length (slots s) \<and> materials t = materials s
     \<and> shots t = shots s \<and> log t = log s \<and> bake_mult t = bake_mult s
     \<and> combine t = combine s \<and> fillerplane t = fillerplane s \<and> char_name t = char_name s
     \<and> render t = render s" and "hide_slot cur x t = Inr t'"
  then show "length (slots t') = length (slots s) \<and> materials t' = materials s
     \<and> shots t' = shots s \<and> log t' = log s \<and> bake_mult t' = bake_mult s
     \<and> combine t' = combine s \<and> fillerplane t' = fillerplane s \<and> char_name t' = char_name s
     \<and> render t' = render s"
    using hide_slot_frame [of cur x t t'] by simp
qed

lemma set_resolution_frame:
  assumes "set_resolution highest_resolution s = Inr s1"
  shows "slots s1 = slots s \<and> materials s1 = materials s \<and> shots s1 = shots s
     \<and> log s1 = log s \<and> bake_mult s1 = bake_mult s \<and> combine s1 = combine s
     \<and> fillerplane s1 = fillerplane s \<and> char_name s1 = char_name s"
  using assms by (auto simp: set_resolution_def Let_def split: if_splits sum.splits)

lemma set_resolution_int:
  assumes "bake_mult s = IntVal k" and "highest_resolution \<noteq> []"
  shows "\<exists>s1. set_resolution highest_resolution s = Inr s1
     \<and> resolution_x (render s1) = clamp_resolution (int (highest_resolution ! 0) * k)
     \<and> resolution_y (render s1) = clamp_resolution (int (highest_resolution ! 1) * k)"
  using assms by (simp add: set_resolution_def Let_def)

lemma set_resolution_float:
  assumes "bake_mult s = FloatVal x" and "highest_resolution \<noteq> []"
  shows "set_resolution highest_resolution s = Inl TypeError"
  using assms by (simp add: set_resolution_def Let_def)

lemma render_material_frame:
  assumes "render_material folderpath bake_type cur s = Inr s1"
  shows "length (slots s1) = length (slots s) \<and> materials s1 = materials s
     \<and> log s1 = log s \<and> bake_mult s1 = bake_mult s
     \<and> combine s1 = combine s \<and> char_name s1 = char_name s"
proof (cases "textures (materials s ! cur)")
  case None
  with assms show ?thesis by (simp add: render_material_def)
next
  case (Some tg)
  from assms Some obtain r1 s2 where
    q: "set_resolution (highest_resolution_loop (group_nodes tg) [0, 0]) s = Inr r1"
    and h: "hide_siblings cur r1 = Inr s2"
    by (auto simp: render_material_def Let_def split: sum.splits)
  have f: "length (slots s2) = length (slots s) \<and> materials s2 = materials s
     \<and> log s2 = log s \<and> bake_mult s2 = bake_mult s
     \<and> combine s2 = combine s \<and> char_name s2 = char_name s"
    using hide_siblings_frame [OF h] set_resolution_frame [OF q] by simp
  from assms Some q h show ?thesis
    using f
    by (auto simp: render_material_def Let_def render_still_def split: option.splits list.splits)
qed

lemma restore_slots_result:
  assumes "for_each (restore_slot order) xs s = Inr s'"
  shows "materials s' = materials s \<and> length (slots s') = length (slots s)
     \<and> shots s' = shots s \<and> log s' = log s \<and> bake_mult s' = bake_mult s
     \<and> combine s' = combine s \<and> fillerplane s' = fillerplane s \<and> char_name s' = char_name s
     \<and> render s' = render s
     \<and> (\<forall>k. k \<notin> set xs \<longrightarrow> slots s' ! k = slots s ! k)
     \<and> (\<forall>k \<in> set xs. k < length (slots s) \<and>
            (\<exists>j. materials_get (materials s) (order ! k) = Some j \<and> slots s' ! k = Some j))"
  using assms
proof (induction xs arbitrary: s)
  case Nil
  then show ?case by simp
next
  case (Cons x xs)
  then obtain t where t: "restore_slot order x s = Inr t" and r: "for_each (restore_slot order) xs t = Inr s'"
    by (auto split: sum.splits)
  from t obtain j where j: "x < length (slots s)" "materials_get (materials s) (order ! x) = Some j"
    "t = s\<lparr>slots := (slots s)[x := Some j]\<rparr>"
    by (auto simp: restore_slot_def split: if_splits option.splits)
  note ih = Cons.IH [OF r]
  show ?case
  proof (intro conjI allI ballI impI)
    fix k assume "k \<notin> set (x # xs)"
    then show "slots s' ! k = slots s ! k" using ih j by simp
  next
    fix k assume k: "k \<in> set (x # xs)"
    show "k < length (slots s)" using k ih j by auto
    show "\<exists>j. materials_get (materials s) (order ! k) = Some j \<and> slots s' ! k = Some j"
    proof (cases "k \<in> set xs")
      case True
      then show ?thesis using ih j by simp
    next
      case False
      with k have "k = x" by simp
      moreover have "slots s' ! x = slots t ! x" using ih False \<open>k = x\<close> by simp
      ultimately show ?thesis using j by simp
    qed
  qed (use ih j in simp_all)
qed

subsection \<open>The material slots across a bake pass\<close>

lemma bake_material_keeps_slots:
  assumes wf: "wf_scene s0"
    and inv: "slots s = slots s0" "map mat_name (materials s) = map mat_name (materials s0)"
    and run: "bake_material fp bt (map (slot_name (materials s0)) (slots s0)) i s = Inr s'"
  shows "slots s' = slots s0 \<and> map mat_name (materials s') = map mat_name (materials s0)"
proof -
  let ?order = "map (slot_name (materials s0)) (slots s0)"
  from run obtain cur where cur: "slots s ! i = Some cur"
    by (auto simp: bake_material_def split: option.splits)
  show ?thesis
  proof (cases "bake (materials s ! cur)")
    case False
    with run cur inv show ?thesis by (auto simp: bake_material_def kklog_def)
  next
    case True
    with run cur obtain v s1 s2 s3 where
      p: "prepare_material bt cur s = Inr (v, s1)" and
      r: "render_material fp bt cur s1 = Inr s2" and
      m: "restore_material bt cur v s2 = Inr s3" and
      f: "for_each (restore_slot ?order) [0..<length ?order] s3 = Inr s'"
      by (auto simp: bake_material_def restore_slots_def split: sum.splits)
    have names3: "map mat_name (materials s3) = map mat_name (materials s0)"
      using prepare_material_frame [OF p] render_material_frame [OF r]
        restore_material_frame [OF m] inv by simp
    have len3: "length (slots s3) = length (slots s0)"
      using prepare_material_frame [OF p] render_material_frame [OF r]
        restore_material_frame [OF m] inv by simp
    note res = restore_slots_result [OF f]
    have "slots s' = slots s0"
    proof (rule nth_equalityI)
      show "length (slots s') = length (slots s0)" using res len3 by simp
    next
      fix k assume "k < length (slots s')"
      then have k: "k < length (slots s0)" using res len3 by simp
      then have "k \<in> set [0..<length ?order]" by simp
      with res obtain j where
        j: "materials_get (materials s3) (?order ! k) = Some j" "slots s' ! k = Some j"
        by blast
      have "materials_get (materials s0) (slot_name (materials s0) (slots s0 ! k)) = Some j"
        using j(1) k materials_get_cong [OF names3] by simp
      note g = this materials_get_Some [OF this]
      show "slots s' ! k = slots s0 ! k"
      proof (cases "slots s0 ! k")
        case None
        with g have "mat_name (materials s0 ! j) = []" "j < length (materials s0)"
          by (simp_all add: slot_name_def)
        then have "[] \<in> set (map mat_name (materials s0))"
          by (metis length_map nth_map nth_mem)
        with wf show ?thesis by (simp add: wf_scene_def)
      next
        case (Some i')
        with k have "Some i' \<in> set (slots s0)" by (metis nth_mem)
        with wf have "i' < length (materials s0)"
          by (auto simp: wf_scene_def split: option.splits dest!: bspec [where x = "Some i'"])
        with wf have "materials_get (materials s0) (mat_name (materials s0 ! i')) = Some i'"
          by (simp add: wf_scene_def materials_get_nth)
        with g(1) Some j(2) show ?thesis by (simp add: slot_name_def)
      qed
    qed
    with res names3 show ?thesis by simp
  qed
qed


text \<open>
  C2: after a bake pass that completes, every material slot of the object holds the material
  it held before the pass, whatever the number of slots and the pass type. During each
  render the other slots hold the placeholder; lines 229-230 put the remembered materials
  back by name, and names identify materials.
\<close>

theorem bake_pass_keeps_slots:
  assumes "wf_scene s" and "bake_pass folderpath bake_type s = Inr s'"
  shows "slots s' = slots s"
proof -
  let ?order = "map (slot_name (materials s)) (slots s)"
  from assms(2) obtain cmb l where c: "combine s = Some cmb" "mix_link cmb = Some l"
    by (auto simp: bake_pass_def split: option.splits)
  define s1 where "s1 = s\<lparr>combine := Some (cmb\<lparr>mix_link := None,
                           mix_default := (if bake_type = ''light'' then 1 else 0)\<rparr>)\<rparr>"
  have s1: "slots s1 = slots s" "materials s1 = materials s" by (simp_all add: s1_def)
  from assms(2) c obtain s2 where
    loop: "for_each (bake_material folderpath bake_type ?order) [0..<length (slots s1)] s1 = Inr s2" and
    s': "slots s' = slots s2"
    by (auto simp: bake_pass_def Let_def s1_def split: option.splits sum.splits)
  have "slots s2 = slots s \<and> map mat_name (materials s2) = map mat_name (materials s)"
  proof (rule for_each_invariant [OF loop])
    show "slots s1 = slots s \<and> map mat_name (materials s1) = map mat_name (materials s)"
      using s1 by simp
  next
    fix x t t'
    assume "slots t = slots s \<and> map mat_name (materials t) = map mat_name (materials s)"
      and "bake_material folderpath bake_type ?order x t = Inr t'"
    then show "slots t' = slots s \<and> map mat_name (materials t') = map mat_name (materials s)"
      using bake_material_keeps_slots [OF assms(1), of t folderpath bake_type x t'] by simp
  qed
  with s' show ?thesis by simp
qed

theorem bake_pass_keeps_slots_witness:
  "wf_scene demo_scene \<and>
   (\<exists>s'. bake_pass ''baked_files/'' ''light'' demo_scene = Inr s'
      \<and> slots s' = slots demo_scene \<and> length (shots s') = 2)"
proof -
  have wf: "wf_scene demo_scene" by code_simp
  have "isl (bake_pass ''baked_files/'' ''light'' demo_scene) = False" by code_simp
  then obtain s' where r: "bake_pass ''baked_files/'' ''light'' demo_scene = Inr s'"
    by (cases "bake_pass ''baked_files/'' ''light'' demo_scene") auto
  have "length (shots_of (bake_pass ''baked_files/'' ''light'' demo_scene)) = 2" by code_simp
  then have "length (shots s') = 2" by (simp add: r shots_of_def)
  with wf r bake_pass_keeps_slots [OF wf r] show ?thesis by simp
qed

subsection \<open>Materials without the bake tag\<close>

text \<open>
  C9: when the loop of bake\_pass reaches a slot whose material lacks the bake tag, the
  iteration logs the skip message and does nothing else: no render is made, so no file is
  written for the material, and no material slot, neither of the object nor of the filler
  plane, is changed.
\<close>

theorem untagged_material_is_skipped:
  assumes "slots s ! index = Some cur" and "\<not> bake (materials s ! cur)"
  shows "\<exists>s'. bake_material folderpath bake_type order index s = Inr s'
     \<and> log s' = log s @ [''Detected material that cannot be finalized. Skipping: ''
                          @ mat_name (materials s ! cur)]
     \<and> shots s' = shots s \<and> slots s' = slots s \<and> fillerplane s' = fillerplane s
     \<and> materials s' = materials s \<and> render s' = render s \<and> combine s' = combine s"
  using assms by (simp add: bake_material_def kklog_def)

theorem untagged_material_is_skipped_witness:
  "slots demo_scene ! 2 = Some 2 \<and> \<not> bake (materials demo_scene ! 2) \<and>
   (\<exists>s'. bake_material ''baked_files/'' ''light'' demo_order 2 demo_scene = Inr s'
      \<and> log s' = [''Detected material that cannot be finalized. Skipping: KK Eyeline kage Ann'']
      \<and> shots s' = [] \<and> slots s' = slots demo_scene)"
proof -
  have h: "slots demo_scene ! 2 = Some 2" "\<not> bake (materials demo_scene ! 2)"
    "log demo_scene = []" "shots demo_scene = []"
    "mat_name (materials demo_scene ! 2) = ''KK Eyeline kage Ann''"
    by code_simp+
  from untagged_material_is_skipped [OF h(1,2), of "''baked_files/''" "''light''" demo_order]
  show ?thesis using h by auto
qed

subsection \<open>The render resolution\<close>

lemma map_filter_cong_map:
  "map f xs = map f ys \<Longrightarrow> List.map_filter f xs = List.map_filter f ys"
proof (induction xs arbitrary: ys)
  case Nil
  then show ?case by simp
next
  case (Cons x xs)
  then obtain y ys' where "ys = y # ys'" by (cases ys) auto
  with Cons show ?case by (auto simp: map_filter_simps split: option.splits)
qed

lemma highest_resolution_loop_cong:
  "map image_input xs = map image_input ys \<Longrightarrow>
   highest_resolution_loop xs h = highest_resolution_loop ys h"
proof (induction xs arbitrary: ys h)
  case Nil
  then show ?case by simp
next
  case (Cons x xs)
  then obtain y ys' where ys: "ys = y # ys'" by (cases ys) auto
  with Cons.prems have xy: "image_input x = image_input y" and r: "map image_input xs = map image_input ys'"
    by simp_all
  note ih = Cons.IH [OF r]
  from xy show ?case unfolding ys
    by (auto simp: image_input_def ih Let_def split: option.splits if_splits)
qed

lemma map_image_input_update:
  assumes "image_input n' = image_input (ns ! k)"
  shows "map image_input (ns[k := n']) = map image_input ns"
proof (rule nth_equalityI)
  show "length (map image_input (ns[k := n'])) = length (map image_input ns)" by simp
next
  fix i assume "i < length (map image_input (ns[k := n']))"
  then have "i < length ns" by simp
  then show "map image_input (ns[k := n']) ! i = map image_input ns ! i"
    using assms by (cases "i = k") simp_all
qed

lemma highest_resolution_loop_result:
  "\<exists>w h. highest_resolution_loop ns [a, b] = [w, h] \<and>
     ((w = a \<and> h = b \<and> (\<forall>j \<in> set (List.map_filter image_input ns). area j \<le> a * b))
      \<or> (\<exists>img \<in> set (List.map_filter image_input ns). img_size img = (w, h) \<and> a * b < area img
            \<and> (\<forall>j \<in> set (List.map_filter image_input ns). area j \<le> area img)))"
proof (induction ns arbitrary: a b)
  case Nil
  then show ?case by (simp add: map_filter_simps)
next
  case (Cons n ns)
  show ?case
  proof (cases "image_input n")
    case None
    then have "highest_resolution_loop (n # ns) [a, b] = highest_resolution_loop ns [a, b]"
      by (auto simp: image_input_def split: option.splits if_splits)
    with None Cons.IH [of a b] show ?thesis by (simp add: map_filter_simps)
  next
    case (Some img)
    then have n: "node_image n = Some img" "node_type n = ''TEX_IMAGE''"
      by (auto simp: image_input_def split: if_splits)
    show ?thesis
    proof (cases "a * b < area img")
      case True
      with n have e: "highest_resolution_loop (n # ns) [a, b]
          = highest_resolution_loop ns [fst (img_size img), snd (img_size img)]"
        by (simp add: area_def Let_def)
      from Cons.IH [of "fst (img_size img)" "snd (img_size img)"]
      obtain w h where wh: "highest_resolution_loop ns [fst (img_size img), snd (img_size img)] = [w, h]"
        and d: "(w = fst (img_size img) \<and> h = snd (img_size img)
                 \<and> (\<forall>j \<in> set (List.map_filter image_input ns). area j \<le> area img))
          \<or> (\<exists>im \<in> set (List.map_filter image_input ns). img_size im = (w, h) \<and> area img < area im
            \<and> (\<forall>j \<in> set (List.map_filter image_input ns). area j \<le> area im))"
        by (auto simp: area_def)
      from d show ?thesis
      proof
        assume "w = fst (img_size img) \<and> h = snd (img_size img)
                 \<and> (\<forall>j \<in> set (List.map_filter image_input ns). area j \<le> area img)"
        with True Some e wh show ?thesis by (auto simp: map_filter_simps)
      next
        assume "\<exists>im \<in> set (List.map_filter image_input ns). img_size im = (w, h) \<and> area img < area im
            \<and> (\<forall>j \<in> set (List.map_filter image_input ns). area j \<le> area im)"
        then obtain im where im: "im \<in> set (List.map_filter image_input ns)" "img_size im = (w, h)"
          "area img < area im" "\<forall>j \<in> set (List.map_filter image_input ns). area j \<le> area im"
          by blast
        have "im \<in> set (List.map_filter image_input (n # ns))" using im(1) Some
          by (simp add: map_filter_simps)
        moreover have "a * b < area im" using True im(3) by simp
        moreover have "\<forall>j \<in> set (List.map_filter image_input (n # ns)). area j \<le> area im"
          using im(3,4) Some by (auto simp: map_filter_simps)
        ultimately show ?thesis using e wh im(2) by auto
      qed
    next
      case False
      with n have e: "highest_resolution_loop (n # ns) [a, b] = highest_resolution_loop ns [a, b]"
        by (simp add: area_def Let_def)
      from Cons.IH [of a b]
      obtain w h where wh: "highest_resolution_loop ns [a, b] = [w, h]"
        and d: "(w = a \<and> h = b \<and> (\<forall>j \<in> set (List.map_filter image_input ns). area j \<le> a * b))
          \<or> (\<exists>im \<in> set (List.map_filter image_input ns). img_size im = (w, h) \<and> a * b < area im
            \<and> (\<forall>j \<in> set (List.map_filter image_input ns). area j \<le> area im))"
        by auto
      from d show ?thesis
      proof
        assume "w = a \<and> h = b \<and> (\<forall>j \<in> set (List.map_filter image_input ns). area j \<le> a * b)"
        with False Some e wh show ?thesis by (auto simp: map_filter_simps)
      next
        assume "\<exists>im \<in> set (List.map_filter image_input ns). img_size im = (w, h) \<and> a * b < area im
            \<and> (\<forall>j \<in> set (List.map_filter image_input ns). area j \<le> area im)"
        then obtain im where im: "im \<in> set (List.map_filter image_input ns)" "img_size im = (w, h)"
          "a * b < area im" "\<forall>j \<in> set (List.map_filter image_input ns). area j \<le> area im"
          by blast
        have "im \<in> set (List.map_filter image_input (n # ns))" using im(1) Some
          by (simp add: map_filter_simps)
        moreover have "\<forall>j \<in> set (List.map_filter image_input (n # ns)). area j \<le> area im"
          using im(3,4) False Some by (auto simp: map_filter_simps)
        ultimately show ?thesis using e wh im(2,3) by auto
      qed
    qed
  qed
qed

lemma highest_resolution_of_inputs:
  assumes "input_images tg \<noteq> []" and "\<forall>img \<in> set (input_images tg). proper_size img"
  shows "\<exists>img. highest_resolution_image (input_images tg) img \<and>
     highest_resolution_loop (group_nodes tg) [0, 0] = [fst (img_size img), snd (img_size img)]"
proof -
  from highest_resolution_loop_result [of "group_nodes tg" 0 0]
  obtain w h where wh: "highest_resolution_loop (group_nodes tg) [0, 0] = [w, h]"
    and d: "(w = 0 \<and> h = 0 \<and> (\<forall>j \<in> set (input_images tg). area j \<le> 0))
      \<or> (\<exists>img \<in> set (input_images tg). img_size img = (w, h) \<and> 0 < area img
            \<and> (\<forall>j \<in> set (input_images tg). area j \<le> area img))"
    by (auto simp: input_images_def)
  from d show ?thesis
  proof
    assume z: "w = 0 \<and> h = 0 \<and> (\<forall>j \<in> set (input_images tg). area j \<le> 0)"
    from assms(1) obtain img where img: "img \<in> set (input_images tg)"
      by (cases "input_images tg") auto
    with z have "area img = 0" by simp
    with assms(2) img have "img_size img = (0, 0)"
      by (auto simp: proper_size_def area_def prod_eq_iff)
    moreover have "highest_resolution_image (input_images tg) img"
      using z img \<open>area img = 0\<close> by (simp add: highest_resolution_image_def)
    ultimately show ?thesis using wh z by auto
  next
    assume "\<exists>img \<in> set (input_images tg). img_size img = (w, h) \<and> 0 < area img
            \<and> (\<forall>j \<in> set (input_images tg). area j \<le> area img)"
    then show ?thesis using wh by (auto simp: highest_resolution_image_def)
  qed
qed

lemma prepare_material_inputs:
  assumes "prepare_material bake_type cur s = Inr (v, s1)" and "cur < length (materials s)"
    and "textures (materials s ! cur) = Some tg"
  shows "\<exists>tg1. textures (materials s1 ! cur) = Some tg1
     \<and> map image_input (group_nodes tg1) = map image_input (group_nodes tg)"
  using assms
  by (auto simp: prepare_material_def Let_def image_input_def
      intro!: map_image_input_update split: option.splits if_splits)

lemma highest_resolution_loop_not_empty: "highest_resolution_loop ns [a, b] \<noteq> []"
  using highest_resolution_loop_result [of ns a b] by auto

lemma render_material_shot:
  assumes "render_material folderpath bake_type cur s = Inr s2"
    and "textures (materials s ! cur) = Some tg" and "bake_mult s = IntVal k"
  shows "\<exists>shot. shots s2 = shots s @ [shot] \<and>
     shot_resolution shot =
       (clamp_resolution (int (highest_resolution_loop (group_nodes tg) [0, 0] ! 0) * k),
        clamp_resolution (int (highest_resolution_loop (group_nodes tg) [0, 0] ! 1) * k))"
proof -
  let ?hr = "highest_resolution_loop (group_nodes tg) [0, 0]"
  have ne: "?hr \<noteq> []" by (rule highest_resolution_loop_not_empty)
  from set_resolution_int [OF assms(3) ne] obtain r1 where
    q: "set_resolution ?hr s = Inr r1"
    and r: "resolution_x (render r1) = clamp_resolution (int (?hr ! 0) * k)"
      "resolution_y (render r1) = clamp_resolution (int (?hr ! 1) * k)"
    by blast
  from assms(1,2) q obtain s2' where h: "hide_siblings cur r1 = Inr s2'"
    by (auto simp: render_material_def Let_def split: sum.splits)
  have f: "render s2' = render r1" "shots s2' = shots s"
    using hide_siblings_frame [OF h] set_resolution_frame [OF q] by simp_all
  from assms(1,2) q h f r show ?thesis
    by (auto simp: render_material_def Let_def render_still_def shot_resolution_def
        split: option.splits list.splits)
qed

lemma render_material_float:
  assumes "textures (materials s ! cur) = Some tg" and "bake_mult s = FloatVal x"
  shows "render_material folderpath bake_type cur s = Inl TypeError"
  using set_resolution_float [OF assms(2) highest_resolution_loop_not_empty]
  by (simp add: render_material_def Let_def assms(1))

lemma ceiling_of_whole: "\<lceil>real n * real_of_int k\<rceil> = int n * k"
proof -
  have "real n * real_of_int k = real_of_int (int n * k)" by simp
  then show ?thesis by (simp only: ceiling_of_int)
qed


text \<open>
  C5 (as amended): take a bake-tagged material with at least one image input, and an input
  image of the highest resolution. When the multiplier is an int, an iteration of bake\_pass
  that completes for the material makes one render, whose resolution is the width and the
  height of that image, each multiplied by the multiplier and then clamped by the host to
  the range 4 to 65536; no ceiling is taken, and the resolution is the ceiling of the
  product of the specification whenever the products lie in that range. When the
  multiplier is a float, the iteration raises and makes no render: when the preparation
  of the material completes, the assignment of line 187 raises a \<^verbatim>\<open>TypeError\<close>.
\<close>

theorem bake_material_resolution:
  assumes "slots s ! index = Some cur" and "cur < length (materials s)"
    and "bake (materials s ! cur)" and "textures (materials s ! cur) = Some tg"
    and "input_images tg \<noteq> []" and "\<forall>img \<in> set (input_images tg). proper_size img"
  shows "case bake_mult s of
      FloatVal x \<Rightarrow>
        isl (bake_material folderpath bake_type order index s)
        \<and> (isl (prepare_material bake_type cur s)
            \<or> bake_material folderpath bake_type order index s = Inl TypeError)
    | IntVal k \<Rightarrow>
        (\<forall>s'. bake_material folderpath bake_type order index s = Inr s' \<longrightarrow>
          (\<exists>shot img. shots s' = shots s @ [shot]
             \<and> highest_resolution_image (input_images tg) img
             \<and> shot_resolution shot =
                 (clamp_resolution (int (fst (img_size img)) * k),
                  clamp_resolution (int (snd (img_size img)) * k))
             \<and> (4 \<le> int (fst (img_size img)) * k \<and> int (fst (img_size img)) * k \<le> 65536
                \<and> 4 \<le> int (snd (img_size img)) * k \<and> int (snd (img_size img)) * k \<le> 65536
                \<longrightarrow> shot_resolution shot = spec_resolution img (real_of_int k))))"
proof (cases "bake_mult s")
  case (FloatVal x)
  have "isl (prepare_material bake_type cur s)
      \<or> bake_material folderpath bake_type order index s = Inl TypeError"
  proof (cases "prepare_material bake_type cur s")
    case (Inl e)
    then show ?thesis by simp
  next
    case (Inr p)
    obtain v s1 where p: "prepare_material bake_type cur s = Inr (v, s1)"
      using Inr by (cases p) simp
    from prepare_material_inputs [OF p assms(2,4)] obtain tg1 where
      tg1: "textures (materials s1 ! cur) = Some tg1" by blast
    have "bake_mult s1 = FloatVal x" using prepare_material_frame [OF p] FloatVal by simp
    from render_material_float [OF tg1 this]
    have "render_material folderpath bake_type cur s1 = Inl TypeError" .
    with p assms(1,3) show ?thesis by (simp add: bake_material_def)
  qed
  moreover from this have "isl (bake_material folderpath bake_type order index s)"
  proof
    assume "isl (prepare_material bake_type cur s)"
    then obtain e where "prepare_material bake_type cur s = Inl e"
      by (cases "prepare_material bake_type cur s") simp_all
    with assms(1,3) show ?thesis by (simp add: bake_material_def)
  qed simp
  ultimately show ?thesis using FloatVal by simp
next
  case (IntVal k)
  have "\<exists>shot img. shots s' = shots s @ [shot]
             \<and> highest_resolution_image (input_images tg) img
             \<and> shot_resolution shot =
                 (clamp_resolution (int (fst (img_size img)) * k),
                  clamp_resolution (int (snd (img_size img)) * k))
             \<and> (4 \<le> int (fst (img_size img)) * k \<and> int (fst (img_size img)) * k \<le> 65536
                \<and> 4 \<le> int (snd (img_size img)) * k \<and> int (snd (img_size img)) * k \<le> 65536
                \<longrightarrow> shot_resolution shot = spec_resolution img (real_of_int k))"
    if run: "bake_material folderpath bake_type order index s = Inr s'" for s'
  proof -
    from assms(1,3) run obtain v s1 s2 s3 where
      p: "prepare_material bake_type cur s = Inr (v, s1)" and
      r: "render_material folderpath bake_type cur s1 = Inr s2" and
      m: "restore_material bake_type cur v s2 = Inr s3" and
      f: "for_each (restore_slot order) [0..<length order] s3 = Inr s'"
      by (auto simp: bake_material_def restore_slots_def split: sum.splits)
    from prepare_material_inputs [OF p assms(2,4)] obtain tg1 where
      tg1: "textures (materials s1 ! cur) = Some tg1"
        "map image_input (group_nodes tg1) = map image_input (group_nodes tg)"
      by blast
    have hr: "highest_resolution_loop (group_nodes tg1) [0, 0]
        = highest_resolution_loop (group_nodes tg) [0, 0]"
      by (rule highest_resolution_loop_cong [OF tg1(2)])
    have k1: "bake_mult s1 = IntVal k" using prepare_material_frame [OF p] IntVal by simp
    from render_material_shot [OF r tg1(1) k1] obtain shot where
      shot: "shots s2 = shots s1 @ [shot]"
        "shot_resolution shot =
         (clamp_resolution (int (highest_resolution_loop (group_nodes tg) [0, 0] ! 0) * k),
          clamp_resolution (int (highest_resolution_loop (group_nodes tg) [0, 0] ! 1) * k))"
      unfolding hr by blast
    from highest_resolution_of_inputs [OF assms(5,6)] obtain img where
      img: "highest_resolution_image (input_images tg) img"
        "highest_resolution_loop (group_nodes tg) [0, 0] = [fst (img_size img), snd (img_size img)]"
      by blast
    have sh: "shots s' = shots s @ [shot]"
      using prepare_material_frame [OF p] restore_material_frame [OF m]
        restore_slots_result [OF f] shot(1) by simp
    have res: "shot_resolution shot =
        (clamp_resolution (int (fst (img_size img)) * k),
         clamp_resolution (int (snd (img_size img)) * k))"
      using shot(2) img(2) by simp
    have "shot_resolution shot = spec_resolution img (real_of_int k)"
      if "4 \<le> int (fst (img_size img)) * k \<and> int (fst (img_size img)) * k \<le> 65536
                \<and> 4 \<le> int (snd (img_size img)) * k \<and> int (snd (img_size img)) * k \<le> 65536"
      using that unfolding res spec_resolution_def ceiling_of_whole
      by (simp add: clamp_resolution_def)
    with sh img(1) res show ?thesis by blast
  qed
  then show ?thesis using IntVal by simp
qed

theorem bake_material_resolution_witness:
  "slots demo_scene ! 0 = Some 0 \<and> 0 < length (materials demo_scene)
   \<and> bake (materials demo_scene ! 0) \<and> textures (materials demo_scene ! 0) = Some demo_textures
   \<and> input_images demo_textures \<noteq> [] \<and> list_all proper_size (input_images demo_textures)
   \<and> bake_mult demo_scene = IntVal 2
   \<and> (\<exists>s' shot img. bake_material ''baked_files/'' ''dark'' demo_order 0 demo_scene = Inr s'
        \<and> shots s' = shots demo_scene @ [shot]
        \<and> highest_resolution_image (input_images demo_textures) img
        \<and> shot_resolution shot = spec_resolution img 2
        \<and> shot_resolution shot = (10, 6))"
proof -
  let ?r = "bake_material ''baked_files/'' ''dark'' demo_order 0 demo_scene"
  have h: "slots demo_scene ! 0 = Some 0" "0 < length (materials demo_scene)"
    "bake (materials demo_scene ! 0)" "textures (materials demo_scene ! 0) = Some demo_textures"
    "input_images demo_textures \<noteq> []" "\<forall>img \<in> set (input_images demo_textures). proper_size img"
    by code_simp+
  have m: "bake_mult demo_scene = IntVal 2" by code_simp
  have "isl ?r = False" by code_simp
  then obtain s' where r: "?r = Inr s'" by (cases ?r) auto
  have "map shot_resolution (shots_of ?r) = [(10, 6)]" by code_simp
  then have c: "map shot_resolution (shots s') = [(10, 6)]" by (simp add: r shots_of_def)
  have e: "shots demo_scene = []" by code_simp
  from bake_material_resolution [OF h, of "''baked_files/''" "''dark''" demo_order] r
  obtain shot img where a: "shots s' = shots demo_scene @ [shot]"
    "highest_resolution_image (input_images demo_textures) img"
    "shot_resolution shot =
       (clamp_resolution (int (fst (img_size img)) * 2), clamp_resolution (int (snd (img_size img)) * 2))"
    "4 \<le> int (fst (img_size img)) * 2 \<and> int (fst (img_size img)) * 2 \<le> 65536
     \<and> 4 \<le> int (snd (img_size img)) * 2 \<and> int (snd (img_size img)) * 2 \<le> 65536
     \<longrightarrow> shot_resolution shot = spec_resolution img 2"
    unfolding m by auto
  from a(1) c e have t: "shot_resolution shot = (10, 6)" by simp
  with a(3) have "clamp_resolution (int (fst (img_size img)) * 2) = 10"
    "clamp_resolution (int (snd (img_size img)) * 2) = 6" by simp_all
  then have "int (fst (img_size img)) * 2 = 10" "int (snd (img_size img)) * 2 = 6"
    by (simp_all add: clamp_resolution_def max_def min_def split: if_splits)
  with a(4) have "shot_resolution shot = spec_resolution img 2" by simp
  with h m r a(1,2) t show ?thesis by (auto simp: list_all_iff)
qed

text \<open>
  The claim C5 as stated fails. With an input image of 5 by 3 pixels and the float
  multiplier 1.5, the pass raises a \<^verbatim>\<open>TypeError\<close> at the assignment of the resolution
  and renders nothing, where the claim has the resolution set to 8 by 5. With the same
  image and the int multiplier 1, the render is made at 5 by 4, where the claim has
  5 by 3.
\<close>

theorem ceiling_resolution_counterexample:
  "bake_pass ''baked_files/'' ''light'' fractional_scene = Inl TypeError
   \<and> bake_mult fractional_scene = FloatVal (3 / 2)
   \<and> spec_resolution \<lparr>img_name = ''body.png'', img_size = (5, 3)\<rparr> (3 / 2) = (8, 5)
   \<and> map shot_resolution (shots_of (bake_pass ''baked_files/'' ''light'' unit_scene)) = [(5, 4)]
   \<and> bake_mult unit_scene = IntVal 1
   \<and> spec_resolution \<lparr>img_name = ''body.png'', img_size = (5, 3)\<rparr> 1 = (5, 3)"
  by code_simp

text \<open>
  C1: a bake-tagged material whose textures group holds no image is rendered, but not at 64
  by 64: the list \<^verbatim>\<open>highest_resolution\<close> starts as \<^verbatim>\<open>[0, 0]\<close>, which is non-empty and
  so true, and the branch that sets 64 is never taken. The resolution assigned is 0 times
  the multiplier, which the host clamps to 4, the least value of the property.
\<close>

theorem failsafe_resolution_not_applied:
  "map (\<lambda>shot. (filepath (shot_settings shot), shot_resolution shot))
     (shots_of (bake_pass ''baked_files/'' ''light'' solid_scene))
   = [(''baked_files/KK Nose light'', (4, 4))]"
  by code_simp

subsection \<open>The light level in a normal pass\<close>

text \<open>
  C4: lines 147-149 run for every pass type. In a normal pass, too, the link into the
  light-level input of the \<^verbatim>\<open>mix\<close> node is removed and the input is set to 0 while the
  materials are rendered (with the output of each material routed to the normal
  passthrough); the link is put back at the end of the pass.
\<close>

theorem normal_pass_forces_light_level:
  "map (\<lambda>shot. (shot_combine shot, map_option out_input (shot_exposed shot)))
     (shots_of (bake_pass ''baked_files/'' ''normal'' demo_scene))
   = [(Some \<lparr>mix_link = None, mix_default = 0\<rparr>, Some (Some (Some (''textures'', 1)))),
      (Some \<lparr>mix_link = None, mix_default = 0\<rparr>, Some (Some (Some (''textures'', 0))))]
   \<and> map_sum id combine (bake_pass ''baked_files/'' ''normal'' demo_scene)
       = Inr (Some \<lparr>mix_link = Some (''input'', 2), mix_default = 0\<rparr>)"
  by code_simp

subsection \<open>cleanup on a clean scene\<close>

lemma remove_flattener_skip:
  "''Flattener'' \<notin> set (modifiers (objects s ! i)) \<Longrightarrow> remove_flattener i s = (None, s)"
  by (simp add: remove_flattener_def)

lemma flattener_loop_skip:
  "\<forall>i \<in> set xs. ''Flattener'' \<notin> set (modifiers (objects s ! i)) \<Longrightarrow>
   for_each_st remove_flattener xs s = (None, s)"
  by (induction xs) (simp_all add: remove_flattener_skip)

lemma filter_id_list_all: "list_all P xs \<Longrightarrow> filter P xs = xs"
  by (induction xs) simp_all

lemma clean_remove_rig_objects:
  assumes "clean_scene s"
  shows "remove_rig_objects (deselect_all s) = deselect_all s"
proof -
  have a: "list_all (\<lambda>ob. obj_type ob \<noteq> ''CAMERA'') (objects (deselect_all s))"
    and b: "list_all (\<lambda>ob. \<not> contains ''fillerplane'' (obj_name ob)) (objects (deselect_all s))"
    using assms by (auto simp: clean_scene_def deselect_all_def list_all_iff)
  show ?thesis
    using filter_id_list_all [OF a] filter_id_list_all [OF b]
    by (simp add: remove_rig_objects_def Let_def)
qed

lemma users_deselect_all:
  "mesh_users (deselect_all s) m = mesh_users s m"
  "camera_users (deselect_all s\<lparr>meshes := ms\<rparr>) c = camera_users s c"
  by (simp_all add: mesh_users_def camera_users_def deselect_all_def filter_map comp_def)

text \<open>
  C3 (as amended): on a scene that is already clean (no camera, no filler plane, no
  Flattener modifier, no flattening node group) cleanup removes no object, modifier,
  driver or node group and resets no scale; it deselects every object, removes the
  mesh and camera data blocks that have no user, and then raises a KeyError at its last
  line, where it looks up the node group \<^verbatim>\<open>.Geometry Nodes\<close> that is not there.
\<close>

theorem cleanup_on_clean_scene:
  assumes "clean_scene s"
  shows "cleanup s =
     (Some (KeyError ''.Geometry Nodes''),
      s\<lparr>objects := map (\<lambda>ob. ob\<lparr>selected := False\<rparr>) (objects s),
        meshes := filter (\<lambda>block. mesh_users s block \<noteq> 0) (meshes s),
        cameras := filter (\<lambda>block. camera_users s block \<noteq> 0) (cameras s)\<rparr>)"
proof -
  let ?s1 = "purge_orphans (deselect_all s)"
  have s1: "?s1 = s\<lparr>objects := map (\<lambda>ob. ob\<lparr>selected := False\<rparr>) (objects s),
        meshes := filter (\<lambda>block. mesh_users s block \<noteq> 0) (meshes s),
        cameras := filter (\<lambda>block. camera_users s block \<noteq> 0) (cameras s)\<rparr>"
    by (simp add: purge_orphans_def purge_cameras_def users_deselect_all)
      (simp add: deselect_all_def)
  have "\<forall>i \<in> set (filter (\<lambda>i. obj_type (objects ?s1 ! i) = ''MESH'') [0..<length (objects ?s1)]).
      ''Flattener'' \<notin> set (modifiers (objects ?s1 ! i))"
    using assms by (auto simp: s1 clean_scene_def list_all_length)
  then have loop: "for_each_st remove_flattener
      (filter (\<lambda>i. obj_type (objects ?s1 ! i) = ''MESH'') [0..<length (objects ?s1)]) ?s1
      = (None, ?s1)"
    by (rule flattener_loop_skip)
  have g: "''.Geometry Nodes'' \<notin> set (node_groups ?s1)"
    using assms by (simp add: s1 clean_scene_def)
  have "cleanup s = (Some (KeyError ''.Geometry Nodes''), ?s1)"
    unfolding cleanup_def clean_remove_rig_objects [OF assms] Let_def loop using g by simp
  then show ?thesis by (simp only: s1)
qed

theorem cleanup_on_clean_scene_witness:
  "clean_scene model_scene \<and>
   cleanup model_scene =
     (Some (KeyError ''.Geometry Nodes''), model_scene\<lparr>objects := [body_object\<lparr>selected := False\<rparr>]\<rparr>)"
proof -
  have c: "clean_scene model_scene" by code_simp
  have e: "model_scene\<lparr>objects := map (\<lambda>ob. ob\<lparr>selected := False\<rparr>) (objects model_scene),
        meshes := filter (\<lambda>block. mesh_users model_scene block \<noteq> 0) (meshes model_scene),
        cameras := filter (\<lambda>block. camera_users model_scene block \<noteq> 0) (cameras model_scene)\<rparr>
      = model_scene\<lparr>objects := [body_object\<lparr>selected := False\<rparr>]\<rparr>"
    by code_simp
  from cleanup_on_clean_scene [OF c] c show ?thesis unfolding e by simp
qed

text \<open>
  The claim C3 as stated fails: on the clean scene that holds the model only, cleanup
  raises a KeyError, and it leaves a scene that differs from the one it was given (the
  model is no longer selected).
\<close>

theorem cleanup_not_idempotent_counterexample:
  "clean_scene model_scene
   \<and> fst (cleanup model_scene) = Some (KeyError ''.Geometry Nodes'')
   \<and> snd (cleanup model_scene) \<noteq> model_scene"
  by code_simp

subsection \<open>The camera that setup\_camera leaves\<close>

text \<open>
  C10: setup\_camera sets the type and the orthographic scale on
  \<^verbatim>\<open>bpy.data.cameras[camera.name]\<close>, the camera data block that has the name of the new
  camera object, which need not be the data block of that object. When the data block of
  a camera of the user's survives the deletion of its object (it has a fake user), the new
  data block is named \<^verbatim>\<open>Camera.001\<close> and the new object \<^verbatim>\<open>Camera\<close>: the function returns,
  the scene has one camera object, it is the scene's camera, and it is a perspective
  camera; the surviving data block of the user's is the one made orthographic.
\<close>

theorem setup_camera_wrong_data_block:
  "map_sum id
     (\<lambda>(camera, s'). (camera, scene_camera s', map obj_name (camera_objects s'),
        map (\<lambda>ob. (obj_data ob, map_option cam_type (camera_data_of s' ob))) (camera_objects s'),
        map (\<lambda>c. (cam_name c, cam_type c)) (cameras s')))
     (setup_camera user_camera_scene)
   = Inr (''Camera'', Some ''Camera'', [''Camera''], [(''Camera.001'', Some ''PERSP'')],
          [(''Camera'', ''ORTHO''), (''Camera.001'', ''PERSP'')])"
  by code_simp

subsection \<open>Exceptions in the operator\<close>

lemma run_stages_append:
  "run_stages (xs @ ys) s =
     (case run_stages xs s of (Some exn, s') \<Rightarrow> (Some exn, s') | (None, s') \<Rightarrow> run_stages ys s')"
  by (induction xs arbitrary: s) (auto split: prod.splits option.splits)

text \<open>
  C8: whichever statement of the \<^verbatim>\<open>try\<close> block raises, after whatever statements ran
  before it, the operator does not propagate the exception: it logs that an error occurred
  and the full traceback, sets the viewport shading to \<^verbatim>\<open>SOLID\<close>, reports the traceback
  to the user interface as an error and returns \<^verbatim>\<open>CANCELLED\<close>. The statements after the
  raising one do not run, and nothing else of the state left at the raise is changed.
\<close>

theorem execute_catches_exception:
  assumes "run_stages before s = (None, s1)" and "stage s1 = (Some exn, s2)"
  shows "execute (before @ stage # rest) elapsed s =
     (CANCELLED,
      s2\<lparr>kk_log := kk_log s2 @ [(''Unknown python error occurred'', Some ''error''),
                                 (format_exc exn, None)],
         viewport_shading := ''SOLID'',
         reports := reports s2 @ [(''ERROR'', format_exc exn)]\<rparr>)"
  using assms
  by (simp add: execute_def run_stages_append report_def set_viewport_shading_def op_kklog_def)

theorem execute_catches_exception_witness:
  "run_stages [setup_camera_stage demo_traceback] demo_operator
     = (None, demo_operator\<lparr>host := snd (projr (setup_camera model_scene))\<rparr>)
   \<and> fst (cleanup_stage demo_traceback (demo_operator\<lparr>host := snd (projr (setup_camera model_scene))\<rparr>))
     = Some (Exception (KeyError ''.Geometry Nodes'')
               ''Traceback (most recent call last): KeyError: .Geometry Nodes'')
   \<and> fst (execute [setup_camera_stage demo_traceback, cleanup_stage demo_traceback,
                   setup_camera_stage demo_traceback] ''12.3456'' demo_operator) = CANCELLED
   \<and> viewport_shading (snd (execute [setup_camera_stage demo_traceback, cleanup_stage demo_traceback,
                   setup_camera_stage demo_traceback] ''12.3456'' demo_operator)) = ''SOLID''
   \<and> reports (snd (execute [setup_camera_stage demo_traceback, cleanup_stage demo_traceback,
                   setup_camera_stage demo_traceback] ''12.3456'' demo_operator))
     = [(''ERROR'', ''Traceback (most recent call last): KeyError: .Geometry Nodes'')]"
proof -
  let ?s1 = "demo_operator\<lparr>host := snd (projr (setup_camera model_scene))\<rparr>"
  let ?exn = "Exception (KeyError ''.Geometry Nodes'')
               ''Traceback (most recent call last): KeyError: .Geometry Nodes''"
  have a: "run_stages [setup_camera_stage demo_traceback] demo_operator = (None, ?s1)"
    by code_simp
  have b: "fst (cleanup_stage demo_traceback ?s1) = Some ?exn" by code_simp
  then have c: "cleanup_stage demo_traceback ?s1 = (Some ?exn, snd (cleanup_stage demo_traceback ?s1))"
    by (simp add: prod_eq_iff)
  have r: "reports (snd (cleanup_stage demo_traceback ?s1)) = []" by code_simp
  from execute_catches_exception [where stage = "cleanup_stage demo_traceback"
      and rest = "[setup_camera_stage demo_traceback]" and elapsed = "''12.3456''", OF a c]
  show ?thesis using a b r by simp
qed

subsection \<open>Names\<close>

lemma starts_with_iff: "starts_with p t \<longleftrightarrow> take (length p) t = p"
  by (induction p t rule: starts_with.induct) auto

lemma starts_with_prefix: "starts_with p (p @ q)"
  by (induction p) auto

lemma contains_prefix: "contains sub (sub @ post)"
  using starts_with_prefix [of sub post] by (cases "sub @ post") auto

lemma contains_append: "contains sub (pre @ sub @ post)"
  by (induction pre) (auto simp: contains_prefix)

lemma contains_iff: "contains sub tx \<longleftrightarrow> (\<exists>pre post. tx = pre @ sub @ post)"
proof
  assume "contains sub tx"
  then show "\<exists>pre post. tx = pre @ sub @ post"
  proof (induction tx)
    case Nil
    then show ?case by simp
  next
    case (Cons c tx)
    show ?case
    proof (cases "starts_with sub (c # tx)")
      case True
      then have "c # tx = [] @ sub @ drop (length sub) (c # tx)"
        by (simp add: starts_with_iff) (metis append_take_drop_id)
      then show ?thesis by blast
    next
      case False
      with Cons obtain pre post where "tx = pre @ sub @ post" by auto
      then have "c # tx = (c # pre) @ sub @ post" by simp
      then show ?thesis by blast
    qed
  qed
next
  assume "\<exists>pre post. tx = pre @ sub @ post"
  then show "contains sub tx" by (auto simp: contains_append)
qed

lemma remove_all_absent:
  "\<not> contains sub tx \<Longrightarrow> remove_all sub tx = tx"
  by (induction tx) auto

lemma org_not_at_end:
  assumes "\<not> starts_with ''-ORG'' (c # tx)"
  shows "\<not> starts_with ''-ORG'' (c # tx @ ''-ORG'')"
proof (cases tx)
  case Nil
  with assms show ?thesis by auto
next
  case (Cons d t1)
  show ?thesis
  proof (cases t1)
    case Nil
    with Cons assms show ?thesis by auto
  next
    case (Cons e t2)
    note c2 = this
    show ?thesis
    proof (cases t2)
      case Nil
      with c2 \<open>tx = d # t1\<close> assms show ?thesis by auto
    next
      case (Cons f t3)
      with c2 \<open>tx = d # t1\<close> assms show ?thesis by auto
    qed
  qed
qed

lemma strip_org_suffix:
  "\<not> contains ''-ORG'' name \<Longrightarrow> strip_org (name @ ''-ORG'') = name"
proof (induction name)
  case Nil
  then show ?case by (simp add: strip_org_def)
next
  case (Cons c name)
  then have a: "\<not> starts_with ''-ORG'' (c # name)" and b: "\<not> contains ''-ORG'' name"
    by auto
  have n: "\<not> (''-ORG'' \<noteq> [] \<and> starts_with ''-ORG'' (c # name @ ''-ORG''))"
    using org_not_at_end [OF a] by blast
  have "remove_all ''-ORG'' (c # name @ ''-ORG'') = c # remove_all ''-ORG'' (name @ ''-ORG'')"
    by (subst remove_all.simps(2)) (simp only: n if_False)
  with Cons.IH [OF b] show ?case
    by (simp only: strip_org_def append_Cons)
qed

lemma strip_org_absent: "\<not> contains ''-ORG'' name \<Longrightarrow> strip_org name = name"
  by (simp add: strip_org_def remove_all_absent)

lemma contains_org_suffix: "contains ''-ORG'' (name @ ''-ORG'')"
  using contains_append [of "''-ORG''" name "[]"] by simp

lemma last4_append: "length suffix = 4 \<Longrightarrow> last4 (name @ suffix) = suffix"
  "length suffix = 4 \<Longrightarrow> but_last4 (name @ suffix) = name"
  by (simp_all add: last4_def but_last4_def)

lemma last4_but_last4: "length (last4 name) = 4 \<Longrightarrow> but_last4 name @ last4 name = name"
  by (simp add: last4_def but_last4_def)

subsection \<open>Binding an image to a node\<close>

lemma nodes_get_Some:
  "nodes_get ns n = Some k \<Longrightarrow> k < length ns \<and> node_name (ns ! k) = n"
  by (induction ns arbitrary: k) (auto split: if_splits)

lemma nodes_get_update:
  assumes "node_name x = node_name (ns ! k)"
  shows "nodes_get (ns[k := x]) n = nodes_get ns n"
  using assms
proof (induction ns arbitrary: k)
  case Nil
  then show ?case by simp
next
  case (Cons a ns)
  then show ?case by (cases k) auto
qed

lemma set_node_image_fields:
  assumes "set_node_image bt img m = Inr m'"
  shows "mat_name m' = mat_name m" "bake m' = bake m" "simple m' = simple m"
    "use_fake_user m' = use_fake_user m" "blend_method m' = blend_method m"
    "surface_render_method m' = surface_render_method m"
  using assms by (auto simp: set_node_image_def split: option.splits)

lemma set_node_image_bound:
  assumes "set_node_image bt img m = Inr m'"
  shows "node_image_of bt m' = Some img"
proof -
  from assms obtain tg k where tg: "textures m = Some tg" and k: "nodes_get (group_nodes tg) bt = Some k"
    and m': "m' = m\<lparr>textures := Some (tg\<lparr>group_nodes :=
                      (group_nodes tg)[k := (group_nodes tg ! k)\<lparr>node_image := Some img\<rparr>]\<rparr>)\<rparr>"
    by (auto simp: set_node_image_def split: option.splits)
  have "nodes_get ((group_nodes tg)[k := (group_nodes tg ! k)\<lparr>node_image := Some img\<rparr>]) bt = Some k"
    using k by (simp add: nodes_get_update)
  then show ?thesis using nodes_get_Some [OF k] by (simp add: m' node_image_of_def)
qed

lemma set_node_image_other:
  assumes "set_node_image bt img m = Inr m'" and "n \<noteq> bt"
  shows "node_image_of n m' = node_image_of n m"
proof -
  from assms obtain tg k where tg: "textures m = Some tg" and k: "nodes_get (group_nodes tg) bt = Some k"
    and m': "m' = m\<lparr>textures := Some (tg\<lparr>group_nodes :=
                      (group_nodes tg)[k := (group_nodes tg ! k)\<lparr>node_image := Some img\<rparr>]\<rparr>)\<rparr>"
    by (auto simp: set_node_image_def split: option.splits)
  let ?ns = "(group_nodes tg)[k := (group_nodes tg ! k)\<lparr>node_image := Some img\<rparr>]"
  have g: "nodes_get ?ns n = nodes_get (group_nodes tg) n" by (simp add: nodes_get_update)
  show ?thesis
  proof (cases "nodes_get (group_nodes tg) n")
    case None
    with g tg show ?thesis by (simp add: m' node_image_of_def)
  next
    case (Some j)
    from nodes_get_Some [OF Some] nodes_get_Some [OF k] assms(2) have "j \<noteq> k" by auto
    with g tg Some show ?thesis by (simp add: m' node_image_of_def)
  qed
qed




subsection \<open>The copy of the template\<close>

lemma materials_get_None: "materials_get ms n = None \<longleftrightarrow> n \<notin> set (map mat_name ms)"
  by (induction ms) auto

lemma materials_get_Some_nth:
  "materials_get ms n = Some j \<Longrightarrow> j < length ms \<and> mat_name (ms ! j) = n"
  by (induction ms arbitrary: j) (auto split: if_splits)

lemma unique_name_free: "\<not> taken base \<Longrightarrow> unique_name base taken = base"
  by (simp add: unique_name_def)

lemma kk_simple_copy_result:
  assumes "kk_simple_copy s = Inr (sid, s2)"
  shows "\<exists>pre dup. data_materials s2 = data_materials s @ pre @ [dup]
     \<and> sid = length (data_materials s) + length pre \<and> length pre \<le> 1
     \<and> (\<forall>t \<in> set pre. mat_name t = ''KK Simple'' \<and> ''KK Simple'' \<notin> set (map mat_name (data_materials s)))
     \<and> material_slots s2 = material_slots s \<and> data_images s2 = data_images s
     \<and> app_version s2 = app_version s \<and> get_name s2 = get_name s
     \<and> shader_dropdown s2 = shader_dropdown s"
proof (cases "materials_get (data_materials s) ''KK Simple''")
  case (Some k)
  with assms have "data_materials s2 = data_materials s @ [] @ [(data_materials s ! k)\<lparr>mat_name :=
      unique_name (mat_name (data_materials s ! k)) (\<lambda>n. n \<in> set (map mat_name (data_materials s)))\<rparr>]"
    and "sid = length (data_materials s) + length ([] :: material list)"
    and "material_slots s2 = material_slots s \<and> data_images s2 = data_images s
     \<and> app_version s2 = app_version s \<and> get_name s2 = get_name s
     \<and> shader_dropdown s2 = shader_dropdown s"
    by (auto simp: kk_simple_copy_def material_copy_def Let_def)
  then show ?thesis by (intro exI [of _ "[]"] exI) auto
next
  case None
  with assms obtain lib where lib: "library_simple s = Some lib"
    by (auto simp: kk_simple_copy_def split: option.splits)
  let ?t = "lib\<lparr>mat_name := ''KK Simple'', use_fake_user := False\<rparr>"
  let ?ms = "data_materials s @ [?t]"
  from assms None lib have "data_materials s2 = data_materials s @ [?t] @ [(?ms ! length (data_materials s))\<lparr>mat_name :=
      unique_name (mat_name (?ms ! length (data_materials s))) (\<lambda>n. n \<in> set (map mat_name ?ms))\<rparr>]"
    and "sid = length (data_materials s) + length [?t]"
    and "material_slots s2 = material_slots s \<and> data_images s2 = data_images s
     \<and> app_version s2 = app_version s \<and> get_name s2 = get_name s
     \<and> shader_dropdown s2 = shader_dropdown s"
    by (auto simp: kk_simple_copy_def material_copy_def Let_def)
  moreover have "''KK Simple'' \<notin> set (map mat_name (data_materials s))"
    using None by (simp add: materials_get_None)
  ultimately show ?thesis by (intro exI [of _ "[?t]"] exI) auto
qed

lemma other_names_last: "other_names (length ms) (ms @ [x]) = map mat_name ms"
  by (simp add: other_names_def)

lemma other_names_subset: "set (other_names k ms) \<subseteq> set (map mat_name ms)"
  by (auto simp: other_names_def dest: in_set_takeD in_set_dropD)

lemma create_simple_result:
  assumes cur: "cur < length (data_materials s)"
    and dist: "distinct (map mat_name (data_materials s))"
    and X: "mat_name (data_materials s ! cur) = X"
    and nfree: "X @ ''-ORG'' \<notin> set (map mat_name (data_materials s))"
    and norg: "\<not> contains ''-ORG'' X"
    and nks: "X \<noteq> ''KK Simple''"
    and slot: "material_slots s ! i = Some cur" "i < length (material_slots s)"
    and run: "create_simple bt img i cur s = Inr s'"
  shows "\<exists>pre S. data_materials s' =
        (data_materials s)[cur := (data_materials s ! cur)\<lparr>mat_name := X @ ''-ORG'', use_fake_user := True\<rparr>]
          @ pre @ [S]
     \<and> length pre \<le> 1
     \<and> (\<forall>t \<in> set pre. mat_name t = ''KK Simple'' \<and> ''KK Simple'' \<notin> set (map mat_name (data_materials s)))
     \<and> mat_name S = X \<and> simple S \<and> node_image_of bt S = Some img
     \<and> (bt = ''light'' \<longrightarrow> node_image_of ''dark'' S = Some img)
     \<and> material_slots s' = (material_slots s)[i := Some (length (data_materials s) + length pre)]
     \<and> data_images s' = data_images s"
proof -
  let ?ms = "data_materials s"
  let ?M = "?ms ! cur"
  have u1: "unique_name (mat_name ?M @ ''-ORG'') (\<lambda>n. n \<in> set (other_names cur ?ms)) = X @ ''-ORG''"
  proof -
    have "X @ ''-ORG'' \<notin> set (other_names cur ?ms)"
      using nfree other_names_subset [of cur ?ms] by blast
    then show ?thesis by (simp add: X unique_name_free)
  qed
  define renamed where "renamed = ?M\<lparr>mat_name := X @ ''-ORG''\<rparr>"
  define s1 where "s1 = s\<lparr>data_materials := ?ms[cur := renamed]\<rparr>"
  from run obtain sid s2 where kk: "kk_simple_copy s1 = Inr (sid, s2)"
    unfolding create_simple_def Let_def u1 s1_def renamed_def
    by (cases "kk_simple_copy (s\<lparr>data_materials := ?ms[cur := ?M\<lparr>mat_name := X @ ''-ORG''\<rparr>]\<rparr>)") auto
  from kk_simple_copy_result [OF kk] obtain pre dup where
    ms2: "data_materials s2 = ?ms[cur := renamed] @ pre @ [dup]"
    and sid: "sid = length ?ms + length pre" and pre: "length pre \<le> 1"
    and pret: "\<forall>t \<in> set pre. mat_name t = ''KK Simple''
        \<and> ''KK Simple'' \<notin> set (map mat_name (?ms[cur := renamed]))"
    and f2: "material_slots s2 = material_slots s" "data_images s2 = data_images s"
      "app_version s2 = app_version s" "get_name s2 = get_name s"
      "shader_dropdown s2 = shader_dropdown s"
    by (auto simp: s1_def)
  let ?ms2 = "data_materials s2"
  have cur2: "?ms2 ! cur = renamed" using cur by (simp add: ms2 nth_append)
  have sid2: "?ms2 ! sid = dup" by (simp add: ms2 sid nth_append)
  have so: "strip_org (mat_name (?ms2 ! cur)) = X"
    by (simp add: cur2 renamed_def strip_org_suffix [OF norg])
  have names1: "set (map mat_name (?ms[cur := renamed])) \<subseteq> insert (X @ ''-ORG'') (set (map mat_name ?ms) - {X})"
  proof
    fix n assume "n \<in> set (map mat_name (?ms[cur := renamed]))"
    then obtain k where k: "k < length ?ms" "n = mat_name (?ms[cur := renamed] ! k)"
      by (auto simp: in_set_conv_nth)
    show "n \<in> insert (X @ ''-ORG'') (set (map mat_name ?ms) - {X})"
    proof (cases "k = cur")
      case True
      with k cur show ?thesis by (simp add: renamed_def)
    next
      case False
      with k cur dist X have "mat_name (?ms ! k) \<noteq> X"
        by (metis distinct_conv_nth length_map nth_map)
      with False k show ?thesis by auto
    qed
  qed
  have "other_names sid ?ms2 = map mat_name (?ms[cur := renamed] @ pre)"
    using other_names_last [of "?ms[cur := renamed] @ pre" dup] by (simp add: ms2 sid)
  then have xfree: "X \<notin> set (other_names sid ?ms2)"
    using names1 pret nks by auto
  have u2: "unique_name (strip_org (mat_name (?ms2 ! cur))) (\<lambda>n. n \<in> set (other_names sid ?ms2)) = X"
    using xfree by (simp add: so unique_name_free)
  define simple1 where "simple1 = dup\<lparr>mat_name := X\<rparr>"
  from run kk obtain simple2 where b1: "set_node_image bt img simple1 = Inr simple2"
    unfolding create_simple_def Let_def u1 s1_def [symmetric] renamed_def [symmetric]
    by (cases "set_node_image bt img simple1")
      (auto simp: u2 sid2 simple1_def s1_def renamed_def)
  from run kk b1 obtain simple3 where
    b2: "(if bt = ''light'' then set_node_image ''dark'' img simple2 else Inr simple2) = Inr simple3"
    unfolding create_simple_def Let_def u1 s1_def [symmetric] renamed_def [symmetric]
    by (cases "(if bt = ''light'' then set_node_image ''dark'' img simple2 else Inr simple2)")
      (auto simp: u2 sid2 simple1_def s1_def renamed_def)
  define s3 where "s3 = s2\<lparr>data_materials :=
      ?ms2[sid := simple3, cur := (?ms2 ! cur)\<lparr>use_fake_user := True\<rparr>]\<rparr>"
  from run kk b1 b2 obtain s4 where rm: "replace_mat i sid s3 = Inr s4" and s': "s' = s4"
    unfolding create_simple_def Let_def u1 s1_def [symmetric] renamed_def [symmetric]
    by (cases "replace_mat i sid s3")
      (auto simp: u2 sid2 simple1_def [symmetric] s3_def split: if_splits)
  have ne: "sid \<noteq> cur" using cur sid by simp
  have ms3: "data_materials s3 =
      ?ms[cur := ?M\<lparr>mat_name := X @ ''-ORG'', use_fake_user := True\<rparr>] @ pre @ [simple3]"
  proof -
    have "data_materials s3 = ?ms2[sid := simple3, cur := renamed\<lparr>use_fake_user := True\<rparr>]"
      by (simp add: s3_def cur2)
    also have "\<dots> = ?ms[cur := ?M\<lparr>mat_name := X @ ''-ORG'', use_fake_user := True\<rparr>] @ pre @ [simple3]"
      using cur unfolding ms2 by (simp add: sid list_update_append renamed_def)
    finally show ?thesis .
  qed
  have n3: "mat_name simple3 = X \<and> node_image_of bt simple3 = Some img
      \<and> (bt = ''light'' \<longrightarrow> node_image_of ''dark'' simple3 = Some img)"
  proof (cases "bt = ''light''")
    case True
    with b2 have d: "set_node_image ''dark'' img simple2 = Inr simple3" by simp
    have "node_image_of ''light'' simple3 = node_image_of ''light'' simple2"
      by (rule set_node_image_other [OF d]) simp
    with True set_node_image_bound [OF b1] set_node_image_bound [OF d]
      set_node_image_fields(1) [OF b1] set_node_image_fields(1) [OF d]
    show ?thesis by (simp add: simple1_def)
  next
    case False
    with b2 have "simple3 = simple2" by simp
    with False set_node_image_bound [OF b1] set_node_image_fields(1) [OF b1]
    show ?thesis by (simp add: simple1_def)
  qed
  from rm obtain S where
    S: "data_materials s4 = (data_materials s3)[sid := S]"
      "material_slots s4 = (material_slots s3)[i := Some sid]"
      "data_images s4 = data_images s3"
      "mat_name S = mat_name (data_materials s3 ! sid)" "simple S"
      "\<forall>n. node_image_of n S = node_image_of n (data_materials s3 ! sid)"
    using slot f2
    by (auto simp: replace_mat_def Let_def s3_def node_image_of_def split: option.splits if_splits)
  have sid3: "data_materials s3 ! sid = simple3" by (simp add: ms3 sid nth_append)
  have ms4: "data_materials s4 =
      ?ms[cur := ?M\<lparr>mat_name := X @ ''-ORG'', use_fake_user := True\<rparr>] @ pre @ [S]"
    by (simp add: S(1) ms3 sid list_update_append)
  have "\<forall>t \<in> set pre. mat_name t = ''KK Simple'' \<and> ''KK Simple'' \<notin> set (map mat_name ?ms)"
  proof
    fix t assume t: "t \<in> set pre"
    with pret have a: "mat_name t = ''KK Simple''"
      and b: "''KK Simple'' \<notin> set (map mat_name (?ms[cur := renamed]))" by auto
    have "''KK Simple'' \<notin> set (map mat_name ?ms)"
    proof
      assume "''KK Simple'' \<in> set (map mat_name ?ms)"
      then obtain k where k: "k < length ?ms" "mat_name (?ms ! k) = ''KK Simple''"
        by (auto simp: in_set_conv_nth)
      with X nks have "k \<noteq> cur" by auto
      with k have "mat_name (?ms[cur := renamed] ! k) = ''KK Simple''" by simp
      with k(1) have "''KK Simple'' \<in> set (map mat_name (?ms[cur := renamed]))"
        by (metis length_list_update length_map nth_map nth_mem)
      with b show False by simp
    qed
    with a show "mat_name t = ''KK Simple'' \<and> ''KK Simple'' \<notin> set (map mat_name ?ms)" by simp
  qed
  with ms4 pre n3 S sid3 f2 show ?thesis
    unfolding s' by (intro exI [of _ pre] exI [of _ S]) (simp add: s3_def sid)
qed

subsection \<open>One iteration of the rebinding loops\<close>

lemma evolves_refl: "evolves s s"
  by (simp add: evolves_def)

lemma images_get_cong: "data_images s' = data_images s \<Longrightarrow> images_get s' n = images_get s n"
  by (simp add: images_get_def)

lemma image_key_cong:
  "strip_org (mat_name m') = strip_org (mat_name m) \<Longrightarrow> image_key m' bt = image_key m bt"
  by (simp add: image_key_def)

lemma slots_okD:
  assumes "slots_ok ms sls" and "i < length sls" and "sls ! i = Some j"
  shows "j < length ms" and "strip_org (mat_name (ms ! j)) \<noteq> ''KK Simple''"
proof -
  from assms(2,3) have m: "Some j \<in> set sls" by (metis nth_mem)
  from assms(1) have "case Some j of None \<Rightarrow> True
                 | Some j \<Rightarrow> j < length ms \<and> strip_org (mat_name (ms ! j)) \<noteq> ''KK Simple''"
    using m unfolding slots_ok_def list_all_iff by (rule bspec)
  then show "j < length ms" and "strip_org (mat_name (ms ! j)) \<noteq> ''KK Simple''"
    by simp_all
qed

lemma tidy_slot:
  assumes "tidy s" and "i < length (material_slots s)" and "material_slots s ! i = Some j"
  shows "j < length (data_materials s)"
    and "strip_org (mat_name (data_materials s ! j)) \<noteq> ''KK Simple''"
  using slots_okD [OF _ assms(2,3)] assms(1) by (simp_all add: tidy_def)

lemma evolves_images: "evolves s s' \<Longrightarrow> data_images s' = data_images s"
  by (simp add: evolves_def)

lemma evolves_material:
  assumes "evolves s s'" and "j < length (data_materials s)"
  shows "strip_org (mat_name (data_materials s' ! j)) = strip_org (mat_name (data_materials s ! j))"
    and "bake (data_materials s' ! j) = bake (data_materials s ! j)"
    and "simple (data_materials s' ! j) = simple (data_materials s ! j)"
    and "node_image_of bt (data_materials s' ! j) = node_image_of bt (data_materials s ! j)
          \<or> images_get s (image_key (data_materials s ! j) bt) \<noteq> None
            \<and> node_image_of bt (data_materials s' ! j)
                = images_get s (image_key (data_materials s ! j) bt)"
  using assms by (simp_all add: evolves_def)

lemma evolves_slot:
  assumes "evolves s s'" and "i < length (material_slots s)"
  shows "material_slots s' ! i = material_slots s ! i
        \<or> (\<exists>j j'. material_slots s ! i = Some j \<and> material_slots s' ! i = Some j'
              \<and> bake (data_materials s ! j) \<and> \<not> simple (data_materials s ! j)
              \<and> strip_org (mat_name (data_materials s' ! j'))
                  = strip_org (mat_name (data_materials s ! j)))"
  using assms by (simp add: evolves_def)

lemma settled_Some:
  "settled bt i s \<Longrightarrow> \<exists>j. material_slots s ! i = Some j"
  by (cases "material_slots s ! i") (simp_all add: settled_def)

lemma settled_iff:
  assumes "material_slots s ! i = Some j"
  shows "settled bt i s \<longleftrightarrow>
    (case images_get s (image_key (data_materials s ! j) bt) of
       None \<Rightarrow> True
     | Some img \<Rightarrow>
         simple (data_materials s ! j) \<and> node_image_of bt (data_materials s ! j) = Some img
         \<or> \<not> simple (data_materials s ! j) \<and> \<not> bake (data_materials s ! j))"
  using assms by (simp add: settled_def)

lemma settled_preserved:
  assumes t: "tidy s" and e: "evolves s s'" and q: "settled bt i s"
    and i: "i < length (material_slots s)"
  shows "settled bt i s'"
proof -
  from settled_Some [OF q] obtain j where j: "material_slots s ! i = Some j" by blast
  from tidy_slot [OF t i j] have jl: "j < length (data_materials s)" by simp
  let ?m = "data_materials s ! j"
  note ej = evolves_material [OF e jl]
  have im: "\<And>n. images_get s' n = images_get s n"
    by (rule images_get_cong [OF evolves_images [OF e]])
  note qs = q [unfolded settled_iff [OF j]]
  from evolves_slot [OF e i] show ?thesis
  proof
    assume same: "material_slots s' ! i = material_slots s ! i"
    then have j': "material_slots s' ! i = Some j" using j by simp
    show ?thesis
    proof (cases "images_get s (image_key ?m bt)")
      case None
      then show ?thesis
        unfolding settled_iff [OF j'] im image_key_cong [OF ej(1)] by simp
    next
      case (Some img)
      with qs have "simple ?m \<and> node_image_of bt ?m = Some img \<or> \<not> simple ?m \<and> \<not> bake ?m"
        by simp
      then have "simple (data_materials s' ! j) \<and> node_image_of bt (data_materials s' ! j) = Some img
          \<or> \<not> simple (data_materials s' ! j) \<and> \<not> bake (data_materials s' ! j)"
        using ej(2) ej(3) ej(4) [of bt] Some by auto
      with Some show ?thesis
        unfolding settled_iff [OF j'] im image_key_cong [OF ej(1)] by simp
    qed
  next
    assume "\<exists>j j'. material_slots s ! i = Some j \<and> material_slots s' ! i = Some j'
              \<and> bake (data_materials s ! j) \<and> \<not> simple (data_materials s ! j)
              \<and> strip_org (mat_name (data_materials s' ! j'))
                  = strip_org (mat_name (data_materials s ! j))"
    with j obtain j' where j': "material_slots s' ! i = Some j'" "bake ?m" "\<not> simple ?m"
      "strip_org (mat_name (data_materials s' ! j')) = strip_org (mat_name ?m)"
      by auto
    from qs j'(2,3) have "images_get s (image_key ?m bt) = None"
      by (cases "images_get s (image_key ?m bt)") simp_all
    then show ?thesis
      unfolding settled_iff [OF j'(1)] im image_key_cong [OF j'(4)] by simp
  qed
qed

lemma original_okD:
  assumes "originals_ok ms" and "m \<in> set ms" and "contains ''-ORG'' (mat_name m)"
  shows "bake m" and "\<not> simple m" and "mat_name m = but_last4 (mat_name m) @ ''-ORG''"
    and "\<not> contains ''-ORG'' (but_last4 (mat_name m))"
    and "strip_org (mat_name m) = but_last4 (mat_name m)"
    and "\<exists>t \<in> set ms. mat_name t = but_last4 (mat_name m) \<and> simple t"
proof -
  from assms have o: "original_ok ms m" by (simp add: originals_ok_def list_all_iff)
  then show "bake m" "\<not> simple m" and nc: "\<not> contains ''-ORG'' (but_last4 (mat_name m))"
    and "\<exists>t \<in> set ms. mat_name t = but_last4 (mat_name m) \<and> simple t"
    by (simp_all add: original_ok_def list_ex_iff)
  from o have l: "last4 (mat_name m) = ''-ORG''" by (simp add: original_ok_def)
  then have "length (last4 (mat_name m)) = 4" by simp
  from last4_but_last4 [OF this] l show n: "mat_name m = but_last4 (mat_name m) @ ''-ORG''"
    by simp
  from strip_org_suffix [OF nc] n show "strip_org (mat_name m) = but_last4 (mat_name m)"
    by simp
qed

lemma strip_org_tidy:
  assumes "originals_ok ms" and "m \<in> set ms"
  shows "\<not> contains ''-ORG'' (strip_org (mat_name m))"
proof (cases "contains ''-ORG'' (mat_name m)")
  case True
  from original_okD(4,5) [OF assms True] show ?thesis by simp
next
  case False
  then show ?thesis by (simp add: strip_org_absent)
qed

text \<open>Well-formedness depends on the names and tags of the materials only.\<close>

lemma originals_ok_cong:
  assumes n: "map mat_name ms' = map mat_name ms" and b: "map bake ms' = map bake ms"
    and sm: "map simple ms' = map simple ms"
  shows "originals_ok ms' = originals_ok ms"
proof -
  have len: "length ms' = length ms" using n by (metis length_map)
  have nth: "\<And>k. k < length ms \<Longrightarrow> mat_name (ms' ! k) = mat_name (ms ! k)
      \<and> bake (ms' ! k) = bake (ms ! k) \<and> simple (ms' ! k) = simple (ms ! k)"
    using n b sm len by (metis nth_map)
  have ex: "\<And>x. list_ex (\<lambda>t. mat_name t = x \<and> simple t) ms'
      = list_ex (\<lambda>t. mat_name t = x \<and> simple t) ms"
    unfolding list_ex_length using len nth by auto
  show ?thesis
    unfolding originals_ok_def original_ok_def list_all_length ex using len nth by auto
qed

lemma slots_ok_cong:
  assumes n: "map mat_name ms' = map mat_name ms"
  shows "slots_ok ms' sls = slots_ok ms sls"
proof -
  have len: "length ms' = length ms" using n by (metis length_map)
  have nth: "\<And>k. k < length ms \<Longrightarrow> mat_name (ms' ! k) = mat_name (ms ! k)"
    using n len by (metis nth_map)
  have "\<And>sl. (case sl of None \<Rightarrow> True
                 | Some j \<Rightarrow> j < length ms' \<and> strip_org (mat_name (ms' ! j)) \<noteq> ''KK Simple'')
      = (case sl of None \<Rightarrow> True
                 | Some j \<Rightarrow> j < length ms \<and> strip_org (mat_name (ms ! j)) \<noteq> ''KK Simple'')"
  proof -
    fix sl show "(case sl of None \<Rightarrow> True
                 | Some j \<Rightarrow> j < length ms' \<and> strip_org (mat_name (ms' ! j)) \<noteq> ''KK Simple'')
      = (case sl of None \<Rightarrow> True
                 | Some j \<Rightarrow> j < length ms \<and> strip_org (mat_name (ms ! j)) \<noteq> ''KK Simple'')"
    proof (cases sl)
      case None
      then show ?thesis by simp
    next
      case (Some j)
      show ?thesis
      proof (cases "j < length ms")
        case True
        with Some len nth [OF True] show ?thesis by simp
      next
        case False
        with Some len show ?thesis by simp
      qed
    qed
  qed
  then have "case_option True (\<lambda>j. j < length ms' \<and> strip_org (mat_name (ms' ! j)) \<noteq> ''KK Simple'')
      = case_option True (\<lambda>j. j < length ms \<and> strip_org (mat_name (ms ! j)) \<noteq> ''KK Simple'')"
    by (intro ext)
  then show ?thesis unfolding slots_ok_def by (rule arg_cong)
qed

lemma tidy_cong:
  assumes "map mat_name (data_materials s') = map mat_name (data_materials s)"
    and "map bake (data_materials s') = map bake (data_materials s)"
    and "map simple (data_materials s') = map simple (data_materials s)"
    and "material_slots s' = material_slots s"
  shows "tidy s' = tidy s"
  unfolding tidy_def originals_ok_cong [OF assms(1,2,3)] slots_ok_cong [OF assms(1)] assms(1,4)
  by simp

lemma map_update_same:
  assumes "f x = f (xs ! k)"
  shows "map f (xs[k := x]) = map f xs"
proof (rule nth_equalityI)
  show "length (map f (xs[k := x])) = length (map f xs)" by simp
next
  fix i assume "i < length (map f (xs[k := x]))"
  then have "i < length xs" by simp
  then show "map f (xs[k := x]) ! i = map f xs ! i"
    using assms by (cases "i = k") simp_all
qed

lemma evolvesI:
  assumes "data_images s' = data_images s"
    and "length (material_slots s') = length (material_slots s)"
    and "length (data_materials s) \<le> length (data_materials s')"
    and "\<And>j. j < length (data_materials s) \<Longrightarrow>
        strip_org (mat_name (data_materials s' ! j)) = strip_org (mat_name (data_materials s ! j))
        \<and> bake (data_materials s' ! j) = bake (data_materials s ! j)
        \<and> simple (data_materials s' ! j) = simple (data_materials s ! j)"
    and "\<And>j bt. j < length (data_materials s) \<Longrightarrow>
        node_image_of bt (data_materials s' ! j) = node_image_of bt (data_materials s ! j)
              \<or> images_get s (image_key (data_materials s ! j) bt) \<noteq> None
                \<and> node_image_of bt (data_materials s' ! j)
                    = images_get s (image_key (data_materials s ! j) bt)"
    and "\<And>i. i < length (material_slots s) \<Longrightarrow>
        material_slots s' ! i = material_slots s ! i
        \<or> (\<exists>j j'. material_slots s ! i = Some j \<and> material_slots s' ! i = Some j'
              \<and> bake (data_materials s ! j) \<and> \<not> simple (data_materials s ! j)
              \<and> strip_org (mat_name (data_materials s' ! j'))
                  = strip_org (mat_name (data_materials s ! j)))"
  shows "evolves s s'"
  unfolding evolves_def
  apply (intro conjI allI impI)
          apply (rule assms(1))
         apply (rule assms(2))
        apply (rule assms(3))
       apply (simp add: assms(4))
      apply (simp add: assms(4))
     apply (simp add: assms(4))
    apply (rule assms(5), assumption)
   apply (rule assms(6), assumption)
  done

text \<open>Binding an image to the node of an existing material, which may move into slot \<open>i\<close>.\<close>

lemma bind_evolves:
  assumes k: "k < length (data_materials s)"
    and b: "set_node_image bt img (data_materials s ! k) = Inr m'"
    and g: "images_get s (image_key (data_materials s ! k) bt) = Some img"
    and sl: "sls = material_slots s \<or>
       (\<exists>cur. sls = (material_slots s)[i := Some k] \<and> material_slots s ! i = Some cur
          \<and> bake (data_materials s ! cur) \<and> \<not> simple (data_materials s ! cur)
          \<and> strip_org (mat_name (data_materials s ! k))
              = strip_org (mat_name (data_materials s ! cur)))"
  shows "evolves s (s\<lparr>material_slots := sls, data_materials := (data_materials s)[k := m']\<rparr>)"
proof (rule evolvesI)
  let ?s' = "s\<lparr>material_slots := sls, data_materials := (data_materials s)[k := m']\<rparr>"
  note f = set_node_image_fields [OF b]
  show "data_images ?s' = data_images s" by simp
  show "length (material_slots ?s') = length (material_slots s)" using sl by auto
  show "length (data_materials s) \<le> length (data_materials ?s')" by simp
  show "strip_org (mat_name (data_materials ?s' ! j)) = strip_org (mat_name (data_materials s ! j))
        \<and> bake (data_materials ?s' ! j) = bake (data_materials s ! j)
        \<and> simple (data_materials ?s' ! j) = simple (data_materials s ! j)"
    if "j < length (data_materials s)" for j
    using that f by (cases "j = k") simp_all
  show "node_image_of n (data_materials ?s' ! j) = node_image_of n (data_materials s ! j)
              \<or> images_get s (image_key (data_materials s ! j) n) \<noteq> None
                \<and> node_image_of n (data_materials ?s' ! j)
                    = images_get s (image_key (data_materials s ! j) n)"
    if "j < length (data_materials s)" for j n
  proof (cases "j = k")
    case False
    with that show ?thesis by simp
  next
    case True
    show ?thesis
    proof (cases "n = bt")
      case True
      with \<open>j = k\<close> k g set_node_image_bound [OF b] show ?thesis by simp
    next
      case False
      with \<open>j = k\<close> k set_node_image_other [OF b False] show ?thesis by simp
    qed
  qed
  show "material_slots ?s' ! i' = material_slots s ! i'
        \<or> (\<exists>j j'. material_slots s ! i' = Some j \<and> material_slots ?s' ! i' = Some j'
              \<and> bake (data_materials s ! j) \<and> \<not> simple (data_materials s ! j)
              \<and> strip_org (mat_name (data_materials ?s' ! j'))
                  = strip_org (mat_name (data_materials s ! j)))"
    if "i' < length (material_slots s)" for i'
    using sl
  proof
    assume "sls = material_slots s"
    then show ?thesis by simp
  next
    assume "\<exists>cur. sls = (material_slots s)[i := Some k] \<and> material_slots s ! i = Some cur
          \<and> bake (data_materials s ! cur) \<and> \<not> simple (data_materials s ! cur)
          \<and> strip_org (mat_name (data_materials s ! k))
              = strip_org (mat_name (data_materials s ! cur))"
    then obtain cur where c: "sls = (material_slots s)[i := Some k]" "material_slots s ! i = Some cur"
      "bake (data_materials s ! cur)" "\<not> simple (data_materials s ! cur)"
      "strip_org (mat_name (data_materials s ! k)) = strip_org (mat_name (data_materials s ! cur))"
      by blast
    show ?thesis
    proof (cases "i' = i")
      case False
      with c(1) show ?thesis by simp
    next
      case True
      have "strip_org (mat_name (data_materials ?s' ! k)) = strip_org (mat_name (data_materials s ! cur))"
        using k f(1) c(5) by simp
      with True that c show ?thesis by simp
    qed
  qed
qed

lemma bind_tidy:
  assumes t: "tidy s" and k: "k < length (data_materials s)"
    and b: "set_node_image bt img (data_materials s ! k) = Inr m'"
  shows "tidy (s\<lparr>data_materials := (data_materials s)[k := m']\<rparr>)"
proof -
  note f = set_node_image_fields [OF b]
  have "tidy (s\<lparr>data_materials := (data_materials s)[k := m']\<rparr>) = tidy s"
    by (rule tidy_cong) (simp_all add: map_update_same f)
  with t show ?thesis by simp
qed

lemma tidy_move_slot:
  assumes t: "tidy s" and i: "i < length (material_slots s)"
    and k: "k < length (data_materials s)"
    and n: "strip_org (mat_name (data_materials s ! k)) \<noteq> ''KK Simple''"
  shows "tidy (s\<lparr>material_slots := (material_slots s)[i := Some k]\<rparr>)"
proof -
  have "slots_ok (data_materials s) ((material_slots s)[i := Some k])"
    unfolding slots_ok_def list_all_iff
  proof
    fix sl assume "sl \<in> set ((material_slots s)[i := Some k])"
    then have "sl = Some k \<or> sl \<in> set (material_slots s)"
      by (metis insert_iff set_update_subset_insert subsetD)
    then show "case sl of None \<Rightarrow> True
        | Some j \<Rightarrow> j < length (data_materials s)
            \<and> strip_org (mat_name (data_materials s ! j)) \<noteq> ''KK Simple''"
    proof
      assume "sl = Some k"
      with k n show ?thesis by simp
    next
      assume "sl \<in> set (material_slots s)"
      with t show ?thesis by (simp add: tidy_def slots_ok_def list_all_iff)
    qed
  qed
  with t show ?thesis by (simp add: tidy_def)
qed

lemma distinct_map_eq:
  "distinct (map f xs) \<Longrightarrow> x \<in> set xs \<Longrightarrow> y \<in> set xs \<Longrightarrow> f x = f y \<Longrightarrow> x = y"
  by (meson distinct_map inj_on_def)

lemma kk_simple_no_org: "\<not> contains ''-ORG'' ''KK Simple''"
  by simp

lemma create_step:
  assumes t: "tidy s" and i: "i < length (material_slots s)"
    and slot: "material_slots s ! i = Some cur"
    and bk: "bake (data_materials s ! cur)" and ns: "\<not> simple (data_materials s ! cur)"
    and no: "\<not> contains ''-ORG'' (mat_name (data_materials s ! cur))"
    and g: "images_get s (image_key (data_materials s ! cur) bt) = Some img"
    and run: "create_simple bt img i cur s = Inr s'"
  shows "tidy s' \<and> evolves s s' \<and> settled bt i s'
     \<and> (\<exists>sid. material_slots s' = (material_slots s)[i := Some sid]
          \<and> length (data_materials s) \<le> sid \<and> sid < length (data_materials s')
          \<and> node_image_of bt (data_materials s' ! sid) = Some img
          \<and> (bt = ''light'' \<longrightarrow> node_image_of ''dark'' (data_materials s' ! sid) = Some img)
          \<and> simple (data_materials s' ! sid)
          \<and> strip_org (mat_name (data_materials s' ! sid))
              = strip_org (mat_name (data_materials s ! cur))
          \<and> (\<forall>j < length (data_materials s'). length (data_materials s) \<le> j \<longrightarrow> j \<noteq> sid \<longrightarrow>
                mat_name (data_materials s' ! j) = ''KK Simple''))"
proof -
  let ?ms = "data_materials s"
  let ?M = "?ms ! cur"
  define X where "X = mat_name ?M"
  have dist: "distinct (map mat_name ?ms)" and so: "slots_ok ?ms (material_slots s)"
    and oo: "originals_ok ?ms"
    using t by (simp_all add: tidy_def)
  from tidy_slot [OF t i slot] have cur: "cur < length ?ms"
    and nks0: "strip_org (mat_name ?M) \<noteq> ''KK Simple''" by simp_all
  have sX: "strip_org X = X" using no by (simp add: X_def strip_org_absent)
  have noX: "\<not> contains ''-ORG'' X" using no by (simp add: X_def)
  have nks: "X \<noteq> ''KK Simple''" using nks0 sX by (simp add: X_def)
  have Min: "?M \<in> set ?ms" using cur by simp
  have nfree: "X @ ''-ORG'' \<notin> set (map mat_name ?ms)"
  proof
    assume "X @ ''-ORG'' \<in> set (map mat_name ?ms)"
    then obtain m2 where m2: "m2 \<in> set ?ms" "mat_name m2 = X @ ''-ORG''" by auto
    then have c: "contains ''-ORG'' (mat_name m2)" by (simp add: contains_org_suffix)
    from original_okD(6) [OF oo m2(1) c] obtain t0 where
      t0: "t0 \<in> set ?ms" "mat_name t0 = but_last4 (mat_name m2)" "simple t0" by blast
    have "mat_name t0 = mat_name ?M" using t0(2) m2(2) by (simp add: last4_append X_def)
    from distinct_map_eq [OF dist t0(1) Min this] t0(3) ns show False by simp
  qed
  from create_simple_result [OF cur dist X_def [symmetric] nfree noX nks slot i run]
  obtain pre S where
    ms': "data_materials s' = ?ms[cur := ?M\<lparr>mat_name := X @ ''-ORG'', use_fake_user := True\<rparr>] @ pre @ [S]"
    and pre: "length pre \<le> 1"
    and pret: "\<forall>t \<in> set pre. mat_name t = ''KK Simple'' \<and> ''KK Simple'' \<notin> set (map mat_name ?ms)"
    and S: "mat_name S = X" "simple S" "node_image_of bt S = Some img"
      "bt = ''light'' \<longrightarrow> node_image_of ''dark'' S = Some img"
    and sl': "material_slots s' = (material_slots s)[i := Some (length ?ms + length pre)]"
    and im': "data_images s' = data_images s"
    by blast
  define M' where "M' = ?M\<lparr>mat_name := X @ ''-ORG'', use_fake_user := True\<rparr>"
  define sid where "sid = length ?ms + length pre"
  let ?ms' = "data_materials s'"
  have ms'': "?ms' = ?ms[cur := M'] @ pre @ [S]" by (simp add: ms' M'_def)
  have old: "?ms' ! j = (if j = cur then M' else ?ms ! j)" if "j < length ?ms" for j
    using that by (simp add: ms'' nth_append)
  have Ssid: "?ms' ! sid = S" by (simp add: ms'' sid_def nth_append)
  have len': "length ?ms' = Suc sid" by (simp add: ms'' sid_def)
  have M'f: "mat_name M' = X @ ''-ORG''" "bake M' = bake ?M" "simple M' = simple ?M"
    "\<And>n. node_image_of n M' = node_image_of n ?M"
    by (simp_all add: M'_def node_image_of_def)
  have sM': "strip_org (mat_name M') = X" by (simp add: M'f strip_org_suffix [OF noX])
  txt \<open>the names stay distinct\<close>
  have names_old: "set (map mat_name (?ms[cur := M'])) \<subseteq> insert (X @ ''-ORG'') (set (map mat_name ?ms) - {X})"
  proof
    fix n assume "n \<in> set (map mat_name (?ms[cur := M']))"
    then obtain k where k: "k < length ?ms" "n = mat_name (?ms[cur := M'] ! k)"
      by (auto simp: in_set_conv_nth)
    show "n \<in> insert (X @ ''-ORG'') (set (map mat_name ?ms) - {X})"
    proof (cases "k = cur")
      case True
      with k cur show ?thesis by (simp add: M'f)
    next
      case False
      with k cur dist have "mat_name (?ms ! k) \<noteq> X" unfolding X_def
        by (metis distinct_conv_nth length_map nth_map)
      with False k show ?thesis by auto
    qed
  qed
  have d1: "distinct (map mat_name (?ms[cur := M']))"
    using dist nfree cur by (simp add: map_update M'f distinct_list_update)
  have d2: "distinct (map mat_name pre)"
    using pre by (cases pre) auto
  have ks: "''KK Simple'' \<noteq> X @ ''-ORG''"
    using contains_org_suffix [of X] kk_simple_no_org by metis
  have d3: "set (map mat_name (?ms[cur := M'])) \<inter> set (map mat_name pre) = {}"
  proof -
    have False if a: "n \<in> set (map mat_name (?ms[cur := M']))" and b: "n \<in> set (map mat_name pre)" for n
    proof -
      from b pret have n: "n = ''KK Simple''" "''KK Simple'' \<notin> set (map mat_name ?ms)" by auto
      from a names_old have "n = X @ ''-ORG'' \<or> n \<in> set (map mat_name ?ms)" by blast
      with n ks show False by blast
    qed
    then show ?thesis by blast
  qed
  have d4: "X \<notin> set (map mat_name (?ms[cur := M'])) \<and> X \<notin> set (map mat_name pre)"
  proof
    show "X \<notin> set (map mat_name (?ms[cur := M']))"
    proof
      assume "X \<in> set (map mat_name (?ms[cur := M']))"
      with names_old have "X = X @ ''-ORG'' \<or> X \<in> set (map mat_name ?ms) - {X}" by blast
      then show False by simp
    qed
    show "X \<notin> set (map mat_name pre)"
    proof
      assume "X \<in> set (map mat_name pre)"
      with pret have "X = ''KK Simple''" by auto
      with nks show False by simp
    qed
  qed
  have dist': "distinct (map mat_name ?ms')"
    using d1 d2 d3 d4 by (simp add: ms'' S(1))
  txt \<open>the slots\<close>
  have slots': "slots_ok ?ms' (material_slots s')"
    unfolding slots_ok_def list_all_iff
  proof
    fix sl assume "sl \<in> set (material_slots s')"
    then have "sl = Some sid \<or> sl \<in> set (material_slots s)"
      unfolding sl' sid_def by (metis insert_iff set_update_subset_insert subsetD)
    then show "case sl of None \<Rightarrow> True
        | Some j \<Rightarrow> j < length ?ms' \<and> strip_org (mat_name (?ms' ! j)) \<noteq> ''KK Simple''"
    proof
      assume "sl = Some sid"
      then show ?thesis using len' Ssid S(1) sX nks by simp
    next
      assume m: "sl \<in> set (material_slots s)"
      show ?thesis
      proof (cases sl)
        case None
        then show ?thesis by simp
      next
        case (Some j)
        with m so have j: "j < length ?ms" "strip_org (mat_name (?ms ! j)) \<noteq> ''KK Simple''"
          by (auto simp: slots_ok_def list_all_iff)
        have "strip_org (mat_name (?ms' ! j)) \<noteq> ''KK Simple''"
          using j old [OF j(1)] sM' nks by (cases "j = cur") simp_all
        with j(1) Some len' show ?thesis by (simp add: sid_def)
      qed
    qed
  qed
  txt \<open>the originals\<close>
  have Sin: "S \<in> set ?ms'" by (simp add: ms'')
  have orig': "originals_ok ?ms'"
    unfolding originals_ok_def list_all_iff
  proof (intro ballI impI)
    fix m assume m: "m \<in> set ?ms'" and c: "contains ''-ORG'' (mat_name m)"
    from m have "m \<in> set (?ms[cur := M']) \<or> m \<in> set pre \<or> m = S" by (auto simp: ms'')
    then show "original_ok ?ms' m"
    proof (elim disjE)
      assume "m = S"
      with c S(1) noX show ?thesis by simp
    next
      assume "m \<in> set pre"
      with pret c kk_simple_no_org show ?thesis by auto
    next
      assume "m \<in> set (?ms[cur := M'])"
      then obtain k where k: "k < length ?ms" "m = ?ms[cur := M'] ! k"
        by (auto simp: in_set_conv_nth)
      show ?thesis
      proof (cases "k = cur")
        case True
        with k cur have "m = M'" by simp
        moreover have "list_ex (\<lambda>t. mat_name t = X \<and> simple t) ?ms'"
          unfolding list_ex_iff using Sin S(1,2) by blast
        ultimately show ?thesis
          using bk ns noX by (simp add: original_ok_def M'f last4_append)
      next
        case False
        with k have mk: "m = ?ms ! k" by simp
        then have min: "m \<in> set ?ms" using k(1) by simp
        note d = original_okD [OF oo min c]
        from d(6) obtain t0 where t0: "t0 \<in> set ?ms" "mat_name t0 = but_last4 (mat_name m)" "simple t0"
          by blast
        then obtain k2 where k2: "k2 < length ?ms" "t0 = ?ms ! k2" by (auto simp: in_set_conv_nth)
        with t0(3) ns have "k2 \<noteq> cur" by auto
        with k2 old [OF k2(1)] have "t0 = ?ms' ! k2" by simp
        then have "t0 \<in> set ?ms'" using k2(1) len' by (simp add: sid_def)
        with t0 have "list_ex (\<lambda>t. mat_name t = but_last4 (mat_name m) \<and> simple t) ?ms'"
          unfolding list_ex_iff by blast
        moreover have "last4 (mat_name m) = ''-ORG''"
          using d(3) by (metis last4_append(1) length_Cons list.size(3) numeral_eq_Suc numeral_2_eq_2 numeral_3_eq_3 One_nat_def pred_numeral_simps(2) semiring_norm(26) semiring_norm(27))
        ultimately show ?thesis using d(1,2,4) by (simp add: original_ok_def)
      qed
    qed
  qed
  have tidy': "tidy s'" using dist' slots' orig' by (simp add: tidy_def)
  txt \<open>what changed\<close>
  have ev: "evolves s s'"
  proof (rule evolvesI)
    show "data_images s' = data_images s" by (rule im')
    show "length (material_slots s') = length (material_slots s)" by (simp add: sl')
    show "length ?ms \<le> length ?ms'" by (simp add: ms'')
    show "strip_org (mat_name (?ms' ! j)) = strip_org (mat_name (?ms ! j))
        \<and> bake (?ms' ! j) = bake (?ms ! j) \<and> simple (?ms' ! j) = simple (?ms ! j)"
      if "j < length ?ms" for j
      using old [OF that] sM' sX M'f by (cases "j = cur") (simp_all add: X_def)
    show "node_image_of n (?ms' ! j) = node_image_of n (?ms ! j)
              \<or> images_get s (image_key (?ms ! j) n) \<noteq> None
                \<and> node_image_of n (?ms' ! j) = images_get s (image_key (?ms ! j) n)"
      if "j < length ?ms" for j n
      using old [OF that] M'f(4) by (cases "j = cur") simp_all
    show "material_slots s' ! i' = material_slots s ! i'
        \<or> (\<exists>j j'. material_slots s ! i' = Some j \<and> material_slots s' ! i' = Some j'
              \<and> bake (?ms ! j) \<and> \<not> simple (?ms ! j)
              \<and> strip_org (mat_name (?ms' ! j')) = strip_org (mat_name (?ms ! j)))"
      if "i' < length (material_slots s)" for i'
    proof (cases "i' = i")
      case False
      then show ?thesis by (simp add: sl')
    next
      case True
      have "material_slots s' ! i = Some sid" using i by (simp add: sl' sid_def)
      moreover have "strip_org (mat_name (?ms' ! sid)) = strip_org (mat_name ?M)"
        by (simp add: Ssid S(1) X_def)
      ultimately show ?thesis using True slot bk ns by blast
    qed
  qed
  txt \<open>the slot is settled\<close>
  have si: "material_slots s' ! i = Some sid" using i by (simp add: sl' sid_def)
  have "image_key S bt = image_key ?M bt"
    by (rule image_key_cong) (simp add: S(1) X_def)
  then have "images_get s' (image_key (?ms' ! sid) bt) = Some img"
    using g images_get_cong [OF im'] by (simp add: Ssid)
  then have st: "settled bt i s'"
    unfolding settled_iff [OF si] using S(2,3) by (simp add: Ssid)
  have extra: "\<forall>j < length ?ms'. length ?ms \<le> j \<longrightarrow> j \<noteq> sid \<longrightarrow> mat_name (?ms' ! j) = ''KK Simple''"
  proof (intro allI impI)
    fix j assume j: "j < length ?ms'" "length ?ms \<le> j" "j \<noteq> sid"
    then have "j - length ?ms < length pre" by (simp add: ms'' sid_def)
    moreover from this j have "?ms' ! j = pre ! (j - length ?ms)"
      by (simp add: ms'' nth_append)
    ultimately show "mat_name (?ms' ! j) = ''KK Simple''" using pret by (metis nth_mem)
  qed
  have "material_slots s' = (material_slots s)[i := Some sid]
          \<and> length ?ms \<le> sid \<and> sid < length ?ms'
          \<and> node_image_of bt (?ms' ! sid) = Some img
          \<and> (bt = ''light'' \<longrightarrow> node_image_of ''dark'' (?ms' ! sid) = Some img)
          \<and> simple (?ms' ! sid)
          \<and> strip_org (mat_name (?ms' ! sid)) = strip_org (mat_name ?M)"
    using sl' len' S(1,2,3,4) by (simp add: sid_def Ssid [unfolded sid_def] X_def)
  with tidy' ev st extra show ?thesis by blast
qed

lemma rebind_slot_step:
  assumes t: "tidy s" and i: "i < length (material_slots s)"
    and run: "rebind_slot bt i s = Inr s'"
  shows "tidy s' \<and> evolves s s' \<and> settled bt i s'"
proof -
  from run obtain cur where slot: "material_slots s ! i = Some cur"
    by (cases "material_slots s ! i") (simp_all add: rebind_slot_def)
  let ?ms = "data_materials s"
  let ?m = "?ms ! cur"
  from tidy_slot [OF t i slot] have cur: "cur < length ?ms"
    and nks: "strip_org (mat_name ?m) \<noteq> ''KK Simple''" by simp_all
  have oo: "originals_ok ?ms" and dist: "distinct (map mat_name ?ms)"
    using t by (simp_all add: tidy_def)
  have min: "?m \<in> set ?ms" using cur by simp
  show ?thesis
  proof (cases "images_get s (image_key ?m bt)")
    case None
    with run slot have "s' = s" by (simp add: rebind_slot_def Let_def)
    moreover have "settled bt i s" unfolding settled_iff [OF slot] using None by simp
    ultimately show ?thesis using t evolves_refl by simp
  next
    case (Some img)
    show ?thesis
    proof (cases "simple ?m")
      case True
      with run slot Some obtain m' where b: "set_node_image bt img ?m = Inr m'"
        and s': "s' = s\<lparr>data_materials := ?ms[cur := m']\<rparr>"
        by (cases "set_node_image bt img ?m") (simp_all add: rebind_slot_def Let_def)
      have e: "evolves s (s\<lparr>material_slots := material_slots s, data_materials := ?ms[cur := m']\<rparr>)"
        by (rule bind_evolves [OF cur b Some]) simp
      have sl': "material_slots s' ! i = Some cur" using slot by (simp add: s')
      have m': "data_materials s' ! cur = m'" using cur by (simp add: s')
      have k: "image_key m' bt = image_key ?m bt"
        by (rule image_key_cong) (simp add: set_node_image_fields(1) [OF b])
      have "images_get s' (image_key m' bt) = Some img"
        using Some by (simp add: k s' images_get_def)
      then have "settled bt i s'"
        unfolding settled_iff [OF sl'] m'
        using True set_node_image_fields(3) [OF b] set_node_image_bound [OF b] by simp
      with bind_tidy [OF t cur b] e show ?thesis by (simp add: s')
    next
      case False
      note ns = this
      show ?thesis
      proof (cases "bake ?m")
        case False
        with run slot Some ns have "s' = s" by (simp add: rebind_slot_def Let_def)
        moreover have "settled bt i s" unfolding settled_iff [OF slot] using Some ns False by simp
        ultimately show ?thesis using t evolves_refl by simp
      next
        case True
        note bk = this
        show ?thesis
        proof (cases "contains ''-ORG'' (mat_name ?m)")
          case True
          note d = original_okD [OF oo min True]
          from d(6) obtain t0 where t0: "t0 \<in> set ?ms" "mat_name t0 = but_last4 (mat_name ?m)" "simple t0"
            by blast
          have key0: "strip_org (mat_name ?m) = mat_name t0" using d(5) t0(2) by simp
          then have "strip_org (mat_name ?m) \<in> set (map mat_name ?ms)" using t0(1) by simp
          then obtain sid where g: "materials_get ?ms (strip_org (mat_name ?m)) = Some sid"
            using materials_get_None [of ?ms "strip_org (mat_name ?m)"] by (cases "materials_get ?ms (strip_org (mat_name ?m))") auto
          from materials_get_Some_nth [OF g] have sid: "sid < length ?ms"
            and nsid: "mat_name (?ms ! sid) = strip_org (mat_name ?m)" by simp_all
          have "?ms ! sid = t0"
            by (rule distinct_map_eq [OF dist]) (use sid t0(1) nsid key0 in simp_all)
          then have ssid: "simple (?ms ! sid)" using t0(3) by simp
          have ksid: "strip_org (mat_name (?ms ! sid)) = strip_org (mat_name ?m)"
            using nsid d(4,5) by (simp add: strip_org_absent)
          from run slot Some ns bk True g obtain m' where b: "set_node_image bt img (?ms ! sid) = Inr m'"
            and s': "s' = s\<lparr>material_slots := (material_slots s)[i := Some sid],
                                 data_materials := ?ms[sid := m']\<rparr>"
            by (cases "set_node_image bt img (?ms ! sid)") (simp_all add: rebind_slot_def Let_def)
          have gk: "images_get s (image_key (?ms ! sid) bt) = Some img"
            using Some image_key_cong [OF ksid] by simp
          have e: "evolves s s'" unfolding s'
            by (rule bind_evolves [OF sid b gk]) (use slot bk ns ksid in blast)
          have t1: "tidy (s\<lparr>material_slots := (material_slots s)[i := Some sid]\<rparr>)"
            by (rule tidy_move_slot [OF t i sid]) (simp add: ksid nks)
          have t': "tidy s'"
            using bind_tidy [OF t1, of sid bt img m'] sid b by (simp add: s')
          have sl': "material_slots s' ! i = Some sid" using i by (simp add: s')
          have m': "data_materials s' ! sid = m'" using sid by (simp add: s')
          have k: "image_key m' bt = image_key (?ms ! sid) bt"
            by (rule image_key_cong) (simp add: set_node_image_fields(1) [OF b])
          have "images_get s' (image_key m' bt) = Some img"
            using gk by (simp add: k s' images_get_def)
          then have "settled bt i s'"
            unfolding settled_iff [OF sl'] m'
            using ssid set_node_image_fields(3) [OF b] set_node_image_bound [OF b] by simp
          with t' e show ?thesis by simp
        next
          case False
          with run slot Some ns bk have c: "create_simple bt img i cur s = Inr s'"
            by (simp add: rebind_slot_def Let_def)
          from create_step [OF t i slot bk ns False Some c] show ?thesis by blast
        qed
      qed
    qed
  qed
qed

subsection \<open>The three passes\<close>

lemma evolves_lengths:
  "evolves s s' \<Longrightarrow> length (material_slots s') = length (material_slots s)"
  by (simp add: evolves_def)

lemma rebind_loop:
  assumes "for_each (rebind_slot bt) xs s = Inr s'" and "tidy s"
    and "\<forall>x \<in> set xs. x < length (material_slots s)"
    and "\<forall>b i. (b, i) \<in> D \<longrightarrow> i < length (material_slots s) \<and> settled b i s"
  shows "tidy s' \<and> length (material_slots s') = length (material_slots s)
     \<and> data_images s' = data_images s
     \<and> (\<forall>b i. (b, i) \<in> D \<union> {bt} \<times> set xs \<longrightarrow> settled b i s')"
  using assms
proof (induction xs arbitrary: s D)
  case Nil
  then show ?case by simp
next
  case (Cons x xs)
  from Cons.prems(1) obtain u where u: "rebind_slot bt x s = Inr u"
    and r: "for_each (rebind_slot bt) xs u = Inr s'"
    by (cases "rebind_slot bt x s") simp_all
  have x: "x < length (material_slots s)" using Cons.prems(3) by simp
  from rebind_slot_step [OF Cons.prems(2) x u] have tu: "tidy u" and e: "evolves s u"
    and su: "settled bt x u" by simp_all
  have lu: "length (material_slots u) = length (material_slots s)" by (rule evolves_lengths [OF e])
  have iu: "data_images u = data_images s" by (rule evolves_images [OF e])
  have a: "\<forall>y \<in> set xs. y < length (material_slots u)" using Cons.prems(3) lu by simp
  have b: "\<forall>b i. (b, i) \<in> insert (bt, x) D \<longrightarrow> i < length (material_slots u) \<and> settled b i u"
  proof (intro allI impI)
    fix b i assume "(b, i) \<in> insert (bt, x) D"
    then show "i < length (material_slots u) \<and> settled b i u"
    proof
      assume "(b, i) = (bt, x)"
      with su x lu show ?thesis by simp
    next
      assume "(b, i) \<in> D"
      with Cons.prems(4) have "i < length (material_slots s)" "settled b i s" by blast+
      with settled_preserved [OF Cons.prems(2) e] lu show ?thesis by simp
    qed
  qed
  from Cons.IH [OF r tu a b] lu iu show ?case by auto
qed

lemma rebind_pass_step:
  assumes "rebind_pass bt s = Inr s'" and "tidy s"
    and "\<forall>b i. (b, i) \<in> D \<longrightarrow> i < length (material_slots s) \<and> settled b i s"
  shows "tidy s' \<and> length (material_slots s') = length (material_slots s)
     \<and> data_images s' = data_images s
     \<and> (\<forall>b i. (b, i) \<in> D \<longrightarrow> settled b i s')
     \<and> (\<forall>i < length (material_slots s). settled bt i s')"
proof -
  from assms(1) have f: "for_each (rebind_slot bt) [0..<length (material_slots s)] s = Inr s'"
    by (simp add: rebind_pass_def)
  from rebind_loop [OF f assms(2) _ assms(3)] show ?thesis by auto
qed



subsection \<open>Loading the images\<close>

lemma first_free_Some:
  "first_free T n fuel = Some k \<Longrightarrow> n \<le> k \<and> k < n + fuel \<and> \<not> T k \<and> (\<forall>j. n \<le> j \<and> j < k \<longrightarrow> T j)"
proof (induction fuel arbitrary: n)
  case 0
  then show ?case by simp
next
  case (Suc fuel)
  show ?case
  proof (cases "T n")
    case False
    with Suc.prems have "k = n" by simp
    with False show ?thesis by auto
  next
    case True
    with Suc.prems have "first_free T (Suc n) fuel = Some k" by simp
    from Suc.IH [OF this] have ih: "Suc n \<le> k" "k < Suc n + fuel" "\<not> T k"
      "\<forall>j. Suc n \<le> j \<and> j < k \<longrightarrow> T j" by simp_all
    have "T j" if "n \<le> j \<and> j < k" for j
    proof (cases "j = n")
      case True
      with \<open>T n\<close> show ?thesis by simp
    next
      case False
      with that have "Suc n \<le> j \<and> j < k" by simp
      with ih(4) show ?thesis by blast
    qed
    with ih(1,2,3) show ?thesis by simp
  qed
qed

lemma first_free_None:
  "first_free T n fuel = None \<Longrightarrow> \<forall>j. n \<le> j \<and> j < n + fuel \<longrightarrow> T j"
proof (induction fuel arbitrary: n)
  case 0
  then show ?case by auto
next
  case (Suc fuel)
  then have a: "T n" and b: "first_free T (Suc n) fuel = None"
    by (auto split: if_splits)
  have "T j" if "n \<le> j \<and> j < n + Suc fuel" for j
  proof (cases "j = n")
    case True
    with a show ?thesis by simp
  next
    case False
    with that have "Suc n \<le> j \<and> j < Suc n + fuel" by simp
    with Suc.IH [OF b] show ?thesis by blast
  qed
  then show ?case by blast
qed

lemma digit_eq:
  assumes "d < 10" and "e < 10"
  shows "digit d = digit e \<longleftrightarrow> d = e"
proof
  assume "digit d = digit e"
  then have "of_char (digit d) = (of_char (digit e) :: nat)" by simp
  then have "(48 + d) mod 256 = (48 + e) mod 256" by (simp add: digit_def)
  with assms show "d = e" by simp
qed simp

lemma digit_not_letter:
  assumes "d < 10"
  shows "digit d \<noteq> CHR ''g''"
proof
  assume "digit d = CHR ''g''"
  then have "of_char (digit d) = (of_char (CHR ''g'') :: nat)" by simp
  then have "(48 + d) mod 256 = 103" by (simp add: digit_def)
  with assms show False by simp
qed

lemma digit_chars: "digit 0 = CHR ''0''" "digit (Suc 0) = CHR ''1''"
proof -
  have "of_char (digit 0) = (of_char (CHR ''0'') :: nat)" by (simp add: digit_def)
  then show "digit 0 = CHR ''0''" by (simp only: of_char_eq_iff)
  have "of_char (digit (Suc 0)) = (of_char (CHR ''1'') :: nat)" by (simp add: digit_def)
  then show "digit (Suc 0) = CHR ''1''" by (simp only: of_char_eq_iff)
qed

lemma last4_numbered:
  "last4 (numbered base k) = [CHR ''.'', digit (k div 100 mod 10), digit (k div 10 mod 10), digit (k mod 10)]"
  "but_last4 (numbered base k) = base"
  by (simp_all add: numbered_def last4_def but_last4_def)

lemma numbered_001:
  assumes "k < 1000"
  shows "last4 (numbered base k) = ''.001'' \<longleftrightarrow> k = 1"
proof
  assume "last4 (numbered base k) = ''.001''"
  then have "digit (k div 100 mod 10) = CHR ''0''" "digit (k div 10 mod 10) = CHR ''0''"
    "digit (k mod 10) = CHR ''1''"
    by (simp_all add: last4_numbered)
  then have "digit (k div 100 mod 10) = digit 0" "digit (k div 10 mod 10) = digit 0"
    "digit (k mod 10) = digit (Suc 0)"
    by (simp_all only: digit_chars)
  then have "k div 100 mod 10 = 0" "k div 10 mod 10 = 0" "k mod 10 = Suc 0"
    by (simp_all add: digit_eq)
  then have d: "k div 100 mod 10 = 0" "k div 10 mod 10 = 0" "k mod 10 = 1" by simp_all
  have "k div 100 < 10" using assms by arith
  with d(1) have "k div 100 = 0" by simp
  then have "k < 100" by arith
  then have "k div 10 < 10" by arith
  with d(2) have "k div 10 = 0" by simp
  then have "k < 10" by arith
  with d(3) show "k = 1" by simp
next
  assume "k = 1"
  then show "last4 (numbered base k) = ''.001''"
    by (simp add: last4_numbered digit_chars)
qed

lemma numbered_not_png: "\<not> is_png (numbered base k)"
  using digit_not_letter [of "k mod 10"] by (simp add: is_png_def last4_numbered)

lemma fallback_name:
  "last4 (base @ ''.1000'') \<noteq> ''.001''" "\<not> is_png (base @ ''.1000'')"
  by (simp_all add: last4_def is_png_def)

lemma png_not_001: "is_png n \<Longrightarrow> last4 n \<noteq> ''.001''"
  by (simp add: is_png_def)

lemma remap_material_fields:
  "mat_name (remap_material old new m) = mat_name m"
  "bake (remap_material old new m) = bake m"
  "simple (remap_material old new m) = simple m"
  by (simp_all add: remap_material_def split: option.splits)


lemma load_image_unreadable:
  "\<not> readable f \<Longrightarrow> data_materials (load_image fp f s) = data_materials s
     \<and> material_slots (load_image fp f s) = material_slots s
     \<and> data_images (load_image fp f s) = data_images s"
  by (simp add: load_image_def)

lemma load_image_cases:
  assumes r: "readable f" and p: "is_png (file_name f)"
  shows "(data_images s (file_name f) = None
        \<and> load_image fp f s = s\<lparr>data_images := (data_images s)(file_name f \<mapsto> file_size f)\<rparr>)
    \<or> (data_images s (file_name f) \<noteq> None \<and> data_images s (numbered (file_name f) 1) = None
        \<and> load_image fp f s =
            s\<lparr>data_materials :=
                 map (remap_material \<lparr>img_name = file_name f, img_size = the (data_images s (file_name f))\<rparr>
                        \<lparr>img_name = file_name f, img_size = file_size f\<rparr>) (data_materials s),
              data_images := (data_images s)(file_name f \<mapsto> file_size f)\<rparr>)
    \<or> (data_images s (file_name f) \<noteq> None \<and> data_images s (numbered (file_name f) 1) \<noteq> None
        \<and> (\<exists>name. \<not> is_png name
              \<and> load_image fp f s = s\<lparr>data_images := (data_images s)(name \<mapsto> file_size f)\<rparr>))"
proof -
  let ?base = "file_name f"
  let ?T = "\<lambda>n. data_images s n \<noteq> None"
  let ?name = "unique_name ?base ?T"
  have plain: "load_image fp f s = s\<lparr>data_images := (data_images s)(?name \<mapsto> file_size f)\<rparr>"
    if "last4 ?name \<noteq> ''.001''"
    using that r by (simp add: load_image_def Let_def)
  show ?thesis
  proof (cases "data_images s ?base")
    case None
    then have n: "?name = ?base" by (simp add: unique_name_free)
    with plain png_not_001 [OF p] None show ?thesis by simp
  next
    case (Some osz)
    then have tk: "?T ?base" by simp
    show ?thesis
    proof (cases "first_free (\<lambda>n. ?T (numbered ?base n)) 1 999")
      case None
      then have n: "?name = ?base @ ''.1000''" using tk by (simp add: unique_name_def)
      from first_free_None [OF None] have "?T (numbered ?base 1)" by simp
      with plain fallback_name [of ?base] Some n show ?thesis by auto
    next
      case (Some k)
      note ff = this
      then have n: "?name = numbered ?base k" using tk by (simp add: unique_name_def)
      from first_free_Some [OF ff] have k: "1 \<le> k" "k < 1000" "\<not> ?T (numbered ?base k)"
        "\<forall>j. 1 \<le> j \<and> j < k \<longrightarrow> ?T (numbered ?base j)" by simp_all
      show ?thesis
      proof (cases "k = 1")
        case False
        with k have "?T (numbered ?base 1)" by simp
        moreover have "last4 ?name \<noteq> ''.001''" using numbered_001 [OF k(2)] False n by simp
        ultimately show ?thesis using plain numbered_not_png [of ?base k] n tk by auto
      next
        case True
        have free: "data_images s (numbered ?base 1) = None" using k(3) unfolding True by blast
        have n1: "?name = numbered ?base 1" using n True by simp
        have ne: "numbered ?base 1 \<noteq> ?base"
          using numbered_not_png [of ?base 1] p by auto
        have l: "last4 (numbered ?base 1) = ''.001''" "but_last4 (numbered ?base 1) = ?base"
          by (simp_all add: last4_numbered digit_chars)
        have m: "((data_images s)(numbered ?base 1 \<mapsto> file_size f, ?base := None, numbered ?base 1 := None))
              (?base \<mapsto> file_size f) = (data_images s)(?base \<mapsto> file_size f)"
          using free by (intro ext) simp
        have "load_image fp f s =
            s\<lparr>data_materials :=
                 map (remap_material \<lparr>img_name = ?base, img_size = osz\<rparr>
                        \<lparr>img_name = ?base, img_size = file_size f\<rparr>) (data_materials s),
              data_images := (data_images s)(?base \<mapsto> file_size f)\<rparr>"
          unfolding load_image_def n1 Let_def
          using r l ne \<open>data_images s ?base = Some osz\<close> m
          by (simp add: images_get_def)
        with free \<open>data_images s ?base = Some osz\<close> show ?thesis by simp
      qed
    qed
  qed
qed

lemma load_image_tidy:
  assumes p: "is_png (file_name f)" and t: "tidy s"
  shows "tidy (load_image fp f s) \<and> material_slots (load_image fp f s) = material_slots s"
proof (cases "readable f")
  case False
  from load_image_unreadable [OF False, of fp s] have
    "tidy (load_image fp f s) = tidy s" by (intro tidy_cong) simp_all
  with t load_image_unreadable [OF False, of fp s] show ?thesis by simp
next
  case True
  have "map mat_name (data_materials (load_image fp f s)) = map mat_name (data_materials s)
      \<and> map bake (data_materials (load_image fp f s)) = map bake (data_materials s)
      \<and> map simple (data_materials (load_image fp f s)) = map simple (data_materials s)
      \<and> material_slots (load_image fp f s) = material_slots s"
    using load_image_cases [OF True p, of s fp]
    by (auto simp: remap_material_fields comp_def)
  then show ?thesis using tidy_cong [of "load_image fp f s" s] t by simp
qed





subsection \<open>Rebinding twice\<close>

lemma fold_load_tidy:
  "\<forall>f \<in> set files. is_png (file_name f) \<Longrightarrow> tidy s \<Longrightarrow>
   tidy (fold (load_image fp) files s)
   \<and> material_slots (fold (load_image fp) files s) = material_slots s"
proof (induction files arbitrary: s)
  case Nil
  then show ?case by simp
next
  case (Cons f files)
  from Cons.prems have p: "is_png (file_name f)" by simp
  from load_image_tidy [OF p Cons.prems(2), of fp] have t: "tidy (load_image fp f s)"
    and m: "material_slots (load_image fp f s) = material_slots s" by simp_all
  from Cons.prems have "\<forall>f \<in> set files. is_png (file_name f)" by simp
  from Cons.IH [OF this t] m show ?case by simp
qed










subsection \<open>A bake of the light pass only\<close>

lemma ends_with_append: "ends_with suffix (name @ suffix)"
  by (simp add: ends_with_def)

lemma only_light_key:
  assumes "only_light s"
  shows "images_get s (image_key m ''dark'') = None" "images_get s (image_key m ''normal'') = None"
proof -
  have "ends_with '' dark.png'' (image_key m ''dark'')"
    using ends_with_append [of "'' dark.png''" "strip_org (mat_name m)"] by (simp add: image_key_def)
  with assms show "images_get s (image_key m ''dark'') = None"
    by (simp add: only_light_def images_get_def)
  have "ends_with '' normal.png'' (image_key m ''normal'')"
    using ends_with_append [of "'' normal.png''" "strip_org (mat_name m)"] by (simp add: image_key_def)
  with assms show "images_get s (image_key m ''normal'') = None"
    by (simp add: only_light_def images_get_def)
qed

lemma only_light_cong: "data_images s' = data_images s \<Longrightarrow> only_light s' = only_light s"
  by (simp add: only_light_def)

lemma rebind_slot_absent:
  assumes "\<And>m. images_get s (image_key m bt) = None" and "rebind_slot bt i s = Inr s'"
  shows "s' = s"
  using assms by (cases "material_slots s ! i") (simp_all add: rebind_slot_def Let_def)

lemma rebind_loop_absent:
  assumes "\<And>m. images_get s (image_key m bt) = None"
  shows "for_each (rebind_slot bt) xs s = Inr s' \<Longrightarrow> s' = s"
proof (induction xs)
  case Nil
  then show ?case by simp
next
  case (Cons x xs)
  from Cons.prems obtain u where u: "rebind_slot bt x s = Inr u"
    and r: "for_each (rebind_slot bt) xs u = Inr s'"
    by (cases "rebind_slot bt x s") simp_all
  from rebind_slot_absent [OF assms u] have "u = s" .
  with r Cons.IH show ?case by simp
qed

lemma original_has_simple:
  assumes t: "tidy s" and cur: "cur < length (data_materials s)"
    and c: "contains ''-ORG'' (mat_name (data_materials s ! cur))"
  shows "materials_get (data_materials s) (strip_org (mat_name (data_materials s ! cur))) \<noteq> None"
proof -
  let ?ms = "data_materials s"
  let ?m = "?ms ! cur"
  have oo: "originals_ok ?ms" using t by (simp add: tidy_def)
  have min: "?m \<in> set ?ms" using cur by simp
  note d = original_okD [OF oo min c]
  from d(6) obtain t0 where t0: "t0 \<in> set ?ms" "mat_name t0 = but_last4 (mat_name ?m)" "simple t0"
    by blast
  have "strip_org (mat_name ?m) = mat_name t0" using d(5) t0(2) by simp
  then have "strip_org (mat_name ?m) \<in> set (map mat_name ?ms)" using t0(1) by simp
  then show ?thesis using materials_get_None [of ?ms "strip_org (mat_name ?m)"] by auto
qed

lemma rebind_slot_grows:
  assumes t: "tidy s" and i: "i < length (material_slots s)"
    and run: "rebind_slot bt i s = Inr s'"
  shows "length (data_materials s') = length (data_materials s)
    \<or> (\<exists>cur img. material_slots s ! i = Some cur
          \<and> bake (data_materials s ! cur) \<and> \<not> simple (data_materials s ! cur)
          \<and> \<not> contains ''-ORG'' (mat_name (data_materials s ! cur))
          \<and> images_get s (image_key (data_materials s ! cur) bt) = Some img
          \<and> create_simple bt img i cur s = Inr s')"
proof -
  from run obtain cur where slot: "material_slots s ! i = Some cur"
    by (cases "material_slots s ! i") (simp_all add: rebind_slot_def)
  let ?m = "data_materials s ! cur"
  from tidy_slot [OF t i slot] have cur: "cur < length (data_materials s)" by simp
  show ?thesis
  proof (cases "images_get s (image_key ?m bt)")
    case None
    with run slot show ?thesis by (simp add: rebind_slot_def Let_def)
  next
    case (Some img)
    show ?thesis
    proof (cases "simple ?m")
      case True
      with run slot Some show ?thesis
        by (cases "set_node_image bt img ?m") (auto simp: rebind_slot_def Let_def)
    next
      case False
      note ns = this
      show ?thesis
      proof (cases "bake ?m")
        case False
        with run slot Some ns show ?thesis by (simp add: rebind_slot_def Let_def)
      next
        case True
        note bk = this
        show ?thesis
        proof (cases "contains ''-ORG'' (mat_name ?m)")
          case True
          from original_has_simple [OF t cur True] obtain sid where
            g: "materials_get (data_materials s) (strip_org (mat_name ?m)) = Some sid" by auto
          with run slot Some ns bk True show ?thesis
            by (cases "set_node_image bt img (data_materials s ! sid)")
              (auto simp: rebind_slot_def Let_def)
        next
          case False
          with run slot Some ns bk have "create_simple bt img i cur s = Inr s'"
            by (simp add: rebind_slot_def Let_def)
          with slot bk ns False Some show ?thesis by blast
        qed
      qed
    qed
  qed
qed

lemma light_step:
  assumes t: "tidy s" and i: "i < length (material_slots s)"
    and run: "rebind_slot ''light'' i s = Inr s'"
    and ol: "only_light s" and p: "paired n0 s"
  shows "paired n0 s'"
proof -
  let ?ms = "data_materials s"
  let ?ms' = "data_materials s'"
  from rebind_slot_step [OF t i run] have e: "evolves s s'" by simp
  have im: "data_images s' = data_images s" by (rule evolves_images [OF e])
  have old: "simple (?ms' ! j)
        \<and> images_get s' (image_key (?ms' ! j) ''light'') \<noteq> None
        \<and> node_image_of ''light'' (?ms' ! j) = images_get s' (image_key (?ms' ! j) ''light'')
        \<and> node_image_of ''dark'' (?ms' ! j) = images_get s' (image_key (?ms' ! j) ''light'')"
    if j: "j < length ?ms" "n0 \<le> j" "strip_org (mat_name (?ms' ! j)) \<noteq> ''KK Simple''" for j
  proof -
    note m = evolves_material [OF e j(1)]
    have k: "image_key (?ms' ! j) ''light'' = image_key (?ms ! j) ''light''"
      by (rule image_key_cong [OF m(1)])
    have g: "images_get s' (image_key (?ms' ! j) ''light'') = images_get s (image_key (?ms ! j) ''light'')"
      unfolding k by (rule images_get_cong [OF im])
    from j(3) m(1) have "strip_org (mat_name (?ms ! j)) \<noteq> ''KK Simple''" by simp
    with p j(1,2) have q: "simple (?ms ! j)"
      "images_get s (image_key (?ms ! j) ''light'') \<noteq> None"
      "node_image_of ''light'' (?ms ! j) = images_get s (image_key (?ms ! j) ''light'')"
      "node_image_of ''dark'' (?ms ! j) = images_get s (image_key (?ms ! j) ''light'')"
      unfolding paired_def by blast+
    have l: "node_image_of ''light'' (?ms' ! j) = images_get s (image_key (?ms ! j) ''light'')"
      using m(4) [of "''light''"] q(3) by auto
    have d: "node_image_of ''dark'' (?ms' ! j) = images_get s (image_key (?ms ! j) ''light'')"
      using m(4) [of "''dark''"] q(4) only_light_key(1) [OF ol, of "?ms ! j"] by auto
    from q(1,2) m(3) l d show ?thesis unfolding g by simp
  qed
  from rebind_slot_grows [OF t i run] show ?thesis
  proof
    assume "length ?ms' = length ?ms"
    with old show ?thesis unfolding paired_def by simp
  next
    assume "\<exists>cur img. material_slots s ! i = Some cur
          \<and> bake (?ms ! cur) \<and> \<not> simple (?ms ! cur)
          \<and> \<not> contains ''-ORG'' (mat_name (?ms ! cur))
          \<and> images_get s (image_key (?ms ! cur) ''light'') = Some img
          \<and> create_simple ''light'' img i cur s = Inr s'"
    then obtain cur img where slot: "material_slots s ! i = Some cur"
      and bk: "bake (?ms ! cur)" and ns: "\<not> simple (?ms ! cur)"
      and no: "\<not> contains ''-ORG'' (mat_name (?ms ! cur))"
      and g: "images_get s (image_key (?ms ! cur) ''light'') = Some img"
      and c: "create_simple ''light'' img i cur s = Inr s'" by blast
    from create_step [OF t i slot bk ns no g c] obtain sid where
      sid: "length ?ms \<le> sid" "sid < length ?ms'"
      and nl: "node_image_of ''light'' (?ms' ! sid) = Some img"
      and nd: "node_image_of ''dark'' (?ms' ! sid) = Some img"
      and si: "simple (?ms' ! sid)"
      and nm: "strip_org (mat_name (?ms' ! sid)) = strip_org (mat_name (?ms ! cur))"
      and others: "\<forall>j < length ?ms'. length ?ms \<le> j \<longrightarrow> j \<noteq> sid \<longrightarrow>
                mat_name (?ms' ! j) = ''KK Simple''"
      by auto
    have k: "image_key (?ms' ! sid) ''light'' = image_key (?ms ! cur) ''light''"
      by (rule image_key_cong [OF nm])
    have gs: "images_get s' (image_key (?ms' ! sid) ''light'') = Some img"
      unfolding k using g images_get_cong [OF im] by simp
    show ?thesis
      unfolding paired_def
    proof (intro allI impI)
      fix j assume j: "j < length ?ms'" "n0 \<le> j" "strip_org (mat_name (?ms' ! j)) \<noteq> ''KK Simple''"
      show "simple (?ms' ! j)
        \<and> images_get s' (image_key (?ms' ! j) ''light'') \<noteq> None
        \<and> node_image_of ''light'' (?ms' ! j) = images_get s' (image_key (?ms' ! j) ''light'')
        \<and> node_image_of ''dark'' (?ms' ! j) = images_get s' (image_key (?ms' ! j) ''light'')"
      proof (cases "j < length ?ms")
        case True
        from old [OF True j(2,3)] show ?thesis .
      next
        case False
        show ?thesis
        proof (cases "j = sid")
          case True
          with si nl nd gs show ?thesis by simp
        next
          case ne: False
          with others j(1) False have "mat_name (?ms' ! j) = ''KK Simple''" by simp
          then have "strip_org (mat_name (?ms' ! j)) = ''KK Simple''"
            using kk_simple_no_org by (simp add: strip_org_absent)
          with j(3) show ?thesis by simp
        qed
      qed
    qed
  qed
qed

lemma light_loop:
  assumes "for_each (rebind_slot ''light'') xs s = Inr s'" and "tidy s"
    and "\<forall>x \<in> set xs. x < length (material_slots s)"
    and "only_light s" and "paired n0 s"
  shows "paired n0 s' \<and> data_images s' = data_images s"
  using assms
proof (induction xs arbitrary: s)
  case Nil
  then show ?case by simp
next
  case (Cons x xs)
  from Cons.prems(1) obtain u where u: "rebind_slot ''light'' x s = Inr u"
    and r: "for_each (rebind_slot ''light'') xs u = Inr s'"
    by (cases "rebind_slot ''light'' x s") simp_all
  have x: "x < length (material_slots s)" using Cons.prems(3) by simp
  from rebind_slot_step [OF Cons.prems(2) x u] have tu: "tidy u" and e: "evolves s u"
    by simp_all
  have lu: "length (material_slots u) = length (material_slots s)" by (rule evolves_lengths [OF e])
  have iu: "data_images u = data_images s" by (rule evolves_images [OF e])
  have a: "\<forall>y \<in> set xs. y < length (material_slots u)" using Cons.prems(3) lu by simp
  have ou: "only_light u" using Cons.prems(4) only_light_cong [OF iu] by simp
  have pu: "paired n0 u" by (rule light_step [OF Cons.prems(2) x u Cons.prems(4,5)])
  from Cons.IH [OF r tu a ou pu] iu show ?case by simp
qed

lemma rebind_materials_light_only:
  assumes r: "rebind_materials s = Inr s'" and t: "tidy s" and ol: "only_light s"
  shows "paired (length (data_materials s)) s'"
proof -
  from r obtain s1 s2 where p1: "rebind_pass ''light'' s = Inr s1"
    and p2: "rebind_pass ''dark'' s1 = Inr s2" and p3: "rebind_pass ''normal'' s2 = Inr s'"
    by (auto simp: rebind_materials_def split: sum.splits)
  have p0: "paired (length (data_materials s)) s" by (simp add: paired_def)
  from p1 have f: "for_each (rebind_slot ''light'') [0..<length (material_slots s)] s = Inr s1"
    by (simp add: rebind_pass_def)
  from light_loop [OF f t _ ol p0] have q1: "paired (length (data_materials s)) s1"
    and i1: "data_images s1 = data_images s" by simp_all
  have o1: "only_light s1" using ol only_light_cong [OF i1] by simp
  from p2 have "s2 = s1"
    unfolding rebind_pass_def by (rule rebind_loop_absent [OF only_light_key(1) [OF o1]])
  with p3 have "s' = s1"
    unfolding rebind_pass_def by (simp add: rebind_loop_absent [OF only_light_key(2) [OF o1]])
  with q1 show ?thesis by simp
qed

lemma ends_with_iff: "ends_with suffix name \<longleftrightarrow> (\<exists>b. name = b @ suffix)"
proof
  assume "ends_with suffix name"
  then have "name = take (length name - length suffix) name @ suffix"
    by (metis append_take_drop_id ends_with_def)
  then show "\<exists>b. name = b @ suffix" ..
next
  assume "\<exists>b. name = b @ suffix"
  then show "ends_with suffix name" by (auto simp: ends_with_def)
qed

lemma ends_with_same_length:
  assumes "ends_with a name" and "ends_with b name" and "length a = length b"
  shows "a = b"
  using assms by (simp add: ends_with_def)

lemma ends_with_shorter: "ends_with (x @ a) name \<Longrightarrow> ends_with a name"
  by (auto simp: ends_with_iff)

lemma light_name:
  assumes "ends_with '' light.png'' name"
  shows "is_png name" and "\<not> ends_with '' dark.png'' name" and "\<not> ends_with '' normal.png'' name"
proof -
  from assms obtain b where b: "name = b @ '' light.png''" by (auto simp: ends_with_iff)
  then show "is_png name" by (simp add: is_png_def last4_def)
  have l: "ends_with ''light.png'' name"
    using ends_with_shorter [of "'' ''" "''light.png''" name] assms by simp
  show "\<not> ends_with '' dark.png'' name"
  proof
    assume "ends_with '' dark.png'' name"
    from ends_with_same_length [OF this l] show False by simp
  qed
  have g: "ends_with ''ght.png'' name"
    using ends_with_shorter [of "'' li''" "''ght.png''" name] assms by simp
  show "\<not> ends_with '' normal.png'' name"
  proof
    assume "ends_with '' normal.png'' name"
    then have "ends_with ''mal.png'' name"
      using ends_with_shorter [of "'' nor''" "''mal.png''" name] by simp
    from ends_with_same_length [OF this g] show False by simp
  qed
qed

lemma not_png_name:
  assumes "\<not> is_png name"
  shows "\<not> ends_with '' dark.png'' name" and "\<not> ends_with '' normal.png'' name"
proof -
  have "is_png name" if "ends_with (x @ ''.png'') name" for x
  proof -
    from that obtain b where "name = b @ x @ ''.png''" by (auto simp: ends_with_iff)
    then show ?thesis by (simp add: is_png_def last4_def)
  qed
  from this [of "'' dark''"] this [of "'' normal''"] assms
  show "\<not> ends_with '' dark.png'' name" and "\<not> ends_with '' normal.png'' name" by auto
qed

lemma load_image_length:
  "length (data_materials (load_image fp f s)) = length (data_materials s)"
  by (simp add: load_image_def Let_def split: option.splits)

lemma load_image_only_light:
  assumes l: "ends_with '' light.png'' (file_name f)" and o: "only_light s"
  shows "only_light (load_image fp f s)"
proof (cases "readable f")
  case False
  from load_image_unreadable [OF False, of fp s] o show ?thesis
    using only_light_cong by blast
next
  case True
  note n = light_name [OF l]
  have upd: "only_light (s'\<lparr>data_images := (data_images s)(name \<mapsto> v)\<rparr>)"
    if "\<not> ends_with '' dark.png'' name" "\<not> ends_with '' normal.png'' name" for name v
      and s' :: rebind_scene
    using o that by (auto simp: only_light_def)
  from load_image_cases [OF True n(1), of s fp] show ?thesis
  proof (elim disjE conjE exE)
    fix name assume "\<not> is_png name"
      and e: "load_image fp f s = s\<lparr>data_images := (data_images s)(name \<mapsto> file_size f)\<rparr>"
    from not_png_name [OF this(1)] show ?thesis unfolding e by (rule upd)
  next
    assume e: "load_image fp f s = s\<lparr>data_images := (data_images s)(file_name f \<mapsto> file_size f)\<rparr>"
    from n(2,3) show ?thesis unfolding e by (rule upd)
  next
    assume e: "load_image fp f s =
            s\<lparr>data_materials :=
                 map (remap_material \<lparr>img_name = file_name f, img_size = the (data_images s (file_name f))\<rparr>
                        \<lparr>img_name = file_name f, img_size = file_size f\<rparr>) (data_materials s),
              data_images := (data_images s)(file_name f \<mapsto> file_size f)\<rparr>"
    from n(2,3) show ?thesis unfolding e by (rule upd)
  qed
qed

lemma fold_load_only_light:
  "\<forall>f \<in> set files. ends_with '' light.png'' (file_name f) \<Longrightarrow> only_light s \<Longrightarrow>
   only_light (fold (load_image fp) files s)
   \<and> length (data_materials (fold (load_image fp) files s)) = length (data_materials s)"
proof (induction files arbitrary: s)
  case Nil
  then show ?case by simp
next
  case (Cons f files)
  from Cons.prems(1) have l: "ends_with '' light.png'' (file_name f)"
    and r: "\<forall>f \<in> set files. ends_with '' light.png'' (file_name f)" by simp_all
  from Cons.IH [OF r load_image_only_light [OF l Cons.prems(2)], of fp]
  show ?case by (simp add: load_image_length)
qed

lemma nodes_get_map:
  "(\<And>x. node_name (f x) = node_name x) \<Longrightarrow> nodes_get (map f ns) n = nodes_get ns n"
  by (induction ns) simp_all

lemma remap_material_empty:
  "node_image_of bt (remap_material old new m) = None \<longleftrightarrow> node_image_of bt m = None"
proof (cases "textures m")
  case None
  then show ?thesis by (simp add: remap_material_def)
next
  case (Some tg)
  have n: "nodes_get (map (remap_node old new) (group_nodes tg)) bt = nodes_get (group_nodes tg) bt"
    by (rule nodes_get_map) (simp add: remap_node_def)
  show ?thesis
  proof (cases "nodes_get (group_nodes tg) bt")
    case None
    with Some n show ?thesis by (simp add: remap_material_def node_image_of_def)
  next
    case (Some k)
    from nodes_get_Some [OF Some] have "k < length (group_nodes tg)" by simp
    with Some n \<open>textures m = Some tg\<close> show ?thesis
      by (simp add: remap_material_def node_image_of_def remap_node_def)
  qed
qed

lemma load_image_materials:
  "data_materials (load_image fp f s) = data_materials s
   \<or> (\<exists>old new. data_materials (load_image fp f s) = map (remap_material old new) (data_materials s))"
  by (auto simp: load_image_def Let_def split: option.splits)

lemma load_image_empty:
  assumes "j < length (data_materials s)"
  shows "node_image_of bt (data_materials (load_image fp f s) ! j) = None
     \<longleftrightarrow> node_image_of bt (data_materials s ! j) = None"
  using load_image_materials [of fp f s] assms by (auto simp: remap_material_empty)

lemma fold_load_empty:
  "j < length (data_materials s) \<Longrightarrow>
   node_image_of bt (data_materials (fold (load_image fp) files s) ! j) = None
     \<longleftrightarrow> node_image_of bt (data_materials s ! j) = None"
proof (induction files arbitrary: s)
  case Nil
  then show ?case by simp
next
  case (Cons f files)
  from Cons.prems have "j < length (data_materials (load_image fp f s))"
    by (simp add: load_image_length)
  from Cons.IH [OF this] load_image_empty [OF Cons.prems, of bt fp f] show ?case by simp
qed

lemma light_loop_dark:
  assumes "for_each (rebind_slot ''light'') xs s = Inr s'" and "tidy s"
    and "\<forall>x \<in> set xs. x < length (material_slots s)" and "only_light s"
  shows "length (data_materials s) \<le> length (data_materials s')
     \<and> (\<forall>j < length (data_materials s).
          node_image_of ''dark'' (data_materials s' ! j) = node_image_of ''dark'' (data_materials s ! j))"
  using assms
proof (induction xs arbitrary: s)
  case Nil
  then show ?case by simp
next
  case (Cons x xs)
  from Cons.prems(1) obtain u where u: "rebind_slot ''light'' x s = Inr u"
    and r: "for_each (rebind_slot ''light'') xs u = Inr s'"
    by (cases "rebind_slot ''light'' x s") simp_all
  have x: "x < length (material_slots s)" using Cons.prems(3) by simp
  from rebind_slot_step [OF Cons.prems(2) x u] have tu: "tidy u" and e: "evolves s u"
    by simp_all
  have lu: "length (material_slots u) = length (material_slots s)" by (rule evolves_lengths [OF e])
  have iu: "data_images u = data_images s" by (rule evolves_images [OF e])
  have mu: "length (data_materials s) \<le> length (data_materials u)"
    using e by (simp add: evolves_def)
  have a: "\<forall>y \<in> set xs. y < length (material_slots u)" using Cons.prems(3) lu by simp
  have ou: "only_light u" using Cons.prems(4) only_light_cong [OF iu] by simp
  note ih = Cons.IH [OF r tu a ou]
  have "node_image_of ''dark'' (data_materials s' ! j) = node_image_of ''dark'' (data_materials s ! j)"
    if j: "j < length (data_materials s)" for j
  proof -
    from j mu have "j < length (data_materials u)" by simp
    with ih have "node_image_of ''dark'' (data_materials s' ! j)
        = node_image_of ''dark'' (data_materials u ! j)" by simp
    also have "\<dots> = node_image_of ''dark'' (data_materials s ! j)"
      using evolves_material(4) [OF e j, of "''dark''"]
        only_light_key(1) [OF Cons.prems(4), of "data_materials s ! j"] by simp
    finally show ?thesis .
  qed
  with ih mu show ?case by simp
qed

lemma rebind_materials_light_only_dark:
  assumes r: "rebind_materials s = Inr s'" and t: "tidy s" and ol: "only_light s"
  shows "length (data_materials s) \<le> length (data_materials s')
     \<and> (\<forall>j < length (data_materials s).
          node_image_of ''dark'' (data_materials s' ! j) = node_image_of ''dark'' (data_materials s ! j))"
proof -
  from r obtain s1 s2 where p1: "rebind_pass ''light'' s = Inr s1"
    and p2: "rebind_pass ''dark'' s1 = Inr s2" and p3: "rebind_pass ''normal'' s2 = Inr s'"
    by (auto simp: rebind_materials_def split: sum.splits)
  from p1 have f: "for_each (rebind_slot ''light'') [0..<length (material_slots s)] s = Inr s1"
    by (simp add: rebind_pass_def)
  from rebind_pass_step [OF p1 t, of "{}"] have i1: "data_images s1 = data_images s" by simp
  have o1: "only_light s1" using ol only_light_cong [OF i1] by simp
  from p2 have "s2 = s1"
    unfolding rebind_pass_def by (rule rebind_loop_absent [OF only_light_key(1) [OF o1]])
  with p3 have "s' = s1"
    unfolding rebind_pass_def by (simp add: rebind_loop_absent [OF only_light_key(2) [OF o1]])
  with light_loop_dark [OF f t _ ol] show ?thesis by simp
qed

text \<open>
  C7 (as amended): when only the light pass was baked, every material that
  replace\_all\_baked\_materials creates, the template \<^verbatim>\<open>KK Simple\<close> apart, is a
  simplified material whose dark node holds the light image of the material, the image
  that its light node holds; so the dark node of a material that the call creates is not
  empty. A material that was there before the call, simplified or not, has an empty dark
  node after the call exactly when it had one before: for a material that is already
  simplified the call writes the light node only (line 288).
\<close>

theorem light_only_fills_dark:
  assumes t: "tidy s" and o: "only_light s"
    and l: "\<forall>f \<in> set files. ends_with '' light.png'' (file_name f)"
    and r: "replace_all_baked_materials fp files s = Inr s'"
  shows "(\<forall>j. length (data_materials s) \<le> j \<and> j < length (data_materials s')
            \<and> strip_org (mat_name (data_materials s' ! j)) \<noteq> ''KK Simple'' \<longrightarrow>
          simple (data_materials s' ! j)
          \<and> (\<exists>img. images_get s' (image_key (data_materials s' ! j) ''light'') = Some img
                \<and> node_image_of ''light'' (data_materials s' ! j) = Some img
                \<and> node_image_of ''dark'' (data_materials s' ! j) = Some img))
     \<and> (\<forall>j < length (data_materials s).
          j < length (data_materials s')
          \<and> (node_image_of ''dark'' (data_materials s' ! j) = None
               \<longleftrightarrow> node_image_of ''dark'' (data_materials s ! j) = None))"
proof -
  let ?s0 = "fold (load_image fp) files s"
  from r have r0: "rebind_materials ?s0 = Inr s'" by (simp add: replace_all_baked_materials_def)
  have p: "\<forall>f \<in> set files. is_png (file_name f)" using l light_name(1) by blast
  from fold_load_tidy [OF p t] have t0: "tidy ?s0" by simp
  from fold_load_only_light [OF l o, of fp] have o0: "only_light ?s0"
    and n0: "length (data_materials ?s0) = length (data_materials s)" by simp_all
  from rebind_materials_light_only [OF r0 t0 o0] have q: "paired (length (data_materials s)) s'"
    by (simp add: n0)
  note d = rebind_materials_light_only_dark [OF r0 t0 o0]
  have new: "simple (data_materials s' ! j)
          \<and> (\<exists>img. images_get s' (image_key (data_materials s' ! j) ''light'') = Some img
                \<and> node_image_of ''light'' (data_materials s' ! j) = Some img
                \<and> node_image_of ''dark'' (data_materials s' ! j) = Some img)"
    if "length (data_materials s) \<le> j \<and> j < length (data_materials s')
            \<and> strip_org (mat_name (data_materials s' ! j)) \<noteq> ''KK Simple''" for j
    using q that unfolding paired_def by auto
  have old: "j < length (data_materials s')
          \<and> (node_image_of ''dark'' (data_materials s' ! j) = None
               \<longleftrightarrow> node_image_of ''dark'' (data_materials s ! j) = None)"
    if j: "j < length (data_materials s)" for j
  proof -
    from d j n0 have "j < length (data_materials s')"
      and "node_image_of ''dark'' (data_materials s' ! j) = node_image_of ''dark'' (data_materials ?s0 ! j)"
      by simp_all
    with fold_load_empty [OF j, of "''dark''" fp files] show ?thesis by simp
  qed
  from new old show ?thesis by blast
qed

theorem light_only_fills_dark_witness:
  "tidy baked_scene \<and> only_light baked_scene
   \<and> list_all (\<lambda>f. ends_with '' light.png'' (file_name f)) light_files
   \<and> (\<exists>s'. replace_all_baked_materials ''baked_files/'' light_files baked_scene = Inr s'
        \<and> length (data_materials baked_scene) = 3 \<and> length (data_materials s') = 6
        \<and> mat_name (data_materials s' ! 4) = ''KK Body''
        \<and> simple (data_materials s' ! 4)
        \<and> node_image_of ''light'' (data_materials s' ! 4)
            = Some \<lparr>img_name = ''KK Body light.png'', img_size = (10, 6)\<rparr>
        \<and> node_image_of ''dark'' (data_materials s' ! 4)
            = Some \<lparr>img_name = ''KK Body light.png'', img_size = (10, 6)\<rparr>
        \<and> node_image_of ''dark'' (data_materials s' ! 0) = None)"
proof -
  let ?r = "replace_all_baked_materials ''baked_files/'' light_files baked_scene"
  have t: "tidy baked_scene" by code_simp
  have o: "only_light baked_scene" by (simp add: only_light_def baked_scene_def)
  have l: "list_all (\<lambda>f. ends_with '' light.png'' (file_name f)) light_files" by code_simp
  then have l': "\<forall>f \<in> set light_files. ends_with '' light.png'' (file_name f)"
    by (simp add: list_all_iff)
  have "isl ?r = False" by code_simp
  then obtain s' where r: "?r = Inr s'" by (cases ?r) auto
  have "length (data_materials baked_scene) = 3" by code_simp
  moreover have "length (data_materials (projr ?r)) = 6" by code_simp
  moreover have "mat_name (data_materials (projr ?r) ! 4) = ''KK Body''" by code_simp
  moreover have "images_get (projr ?r) (image_key (data_materials (projr ?r) ! 4) ''light'')
      = Some \<lparr>img_name = ''KK Body light.png'', img_size = (10, 6)\<rparr>" by code_simp
  moreover have "strip_org ''KK Body'' \<noteq> ''KK Simple''" by code_simp
  ultimately have f: "length (data_materials baked_scene) = 3" "length (data_materials s') = 6"
    "mat_name (data_materials s' ! 4) = ''KK Body''"
    "images_get s' (image_key (data_materials s' ! 4) ''light'')
      = Some \<lparr>img_name = ''KK Body light.png'', img_size = (10, 6)\<rparr>"
    "strip_org (mat_name (data_materials s' ! 4)) \<noteq> ''KK Simple''"
    by (simp_all add: r)
  have e: "node_image_of ''dark'' (data_materials baked_scene ! 0) = None" by code_simp
  note a = light_only_fills_dark [OF t o l' r]
  from a have "length (data_materials baked_scene) \<le> 4 \<and> 4 < length (data_materials s')
            \<and> strip_org (mat_name (data_materials s' ! 4)) \<noteq> ''KK Simple'' \<longrightarrow>
          simple (data_materials s' ! 4)
          \<and> (\<exists>img. images_get s' (image_key (data_materials s' ! 4) ''light'') = Some img
                \<and> node_image_of ''light'' (data_materials s' ! 4) = Some img
                \<and> node_image_of ''dark'' (data_materials s' ! 4) = Some img)" by blast
  with f have n: "simple (data_materials s' ! 4)
    \<and> node_image_of ''light'' (data_materials s' ! 4)
            = Some \<lparr>img_name = ''KK Body light.png'', img_size = (10, 6)\<rparr>
    \<and> node_image_of ''dark'' (data_materials s' ! 4)
            = Some \<lparr>img_name = ''KK Body light.png'', img_size = (10, 6)\<rparr>" by auto
  from a f(1) have "node_image_of ''dark'' (data_materials s' ! 0) = None
      \<longleftrightarrow> node_image_of ''dark'' (data_materials baked_scene ! 0) = None" by simp
  with e have "node_image_of ''dark'' (data_materials s' ! 0) = None" by simp
  with t o l r f(1,2,3) n show ?thesis by blast
qed

lemma only_light_simplified_scene: "only_light simplified_scene"
proof -
  have "ends_with '' light.png'' ''KK Body light.png''" by code_simp
  from light_name(2,3) [OF this] show ?thesis
    by (auto simp: only_light_def simplified_scene_def)
qed

text \<open>
  The claim C7 as stated fails for a material that was simplified before the call: after
  a bake of the light pass alone the call binds the light image to its light node and
  leaves its dark node empty.
\<close>

theorem dark_node_left_empty_counterexample:
  "tidy simplified_scene \<and> only_light simplified_scene
   \<and> list_all (\<lambda>f. ends_with '' light.png'' (file_name f)) light_files
   \<and> (\<exists>s'. replace_all_baked_materials ''baked_files/'' light_files simplified_scene = Inr s'
        \<and> material_slots s' = [Some 1]
        \<and> mat_name (data_materials s' ! 1) = ''KK Body''
        \<and> simple (data_materials s' ! 1)
        \<and> node_image_of ''light'' (data_materials s' ! 1)
            = Some \<lparr>img_name = ''KK Body light.png'', img_size = (10, 6)\<rparr>
        \<and> node_image_of ''dark'' (data_materials s' ! 1) = None)"
proof -
  let ?r = "replace_all_baked_materials ''baked_files/'' light_files simplified_scene"
  have t: "tidy simplified_scene" by code_simp
  have l: "list_all (\<lambda>f. ends_with '' light.png'' (file_name f)) light_files" by code_simp
  have "isl ?r = False" by code_simp
  then obtain s' where r: "?r = Inr s'" by (cases ?r) auto
  have "material_slots (projr ?r) = [Some 1]" by code_simp
  moreover have "mat_name (data_materials (projr ?r) ! 1) = ''KK Body''" by code_simp
  moreover have "simple (data_materials (projr ?r) ! 1)" by code_simp
  moreover have "node_image_of ''light'' (data_materials (projr ?r) ! 1)
            = Some \<lparr>img_name = ''KK Body light.png'', img_size = (10, 6)\<rparr>" by code_simp
  moreover have "node_image_of ''dark'' (data_materials (projr ?r) ! 1) = None" by code_simp
  ultimately show ?thesis using t l only_light_simplified_scene by (simp add: r)
qed

end
